theory Spec2Isabelle
  imports Complex_Main "HOL-Library.Word"
begin

section \<open>JavaScript numbers\<close>

text \<open>
  The numeric module works on JavaScript numbers. A number is modelled as a finite
  real (arithmetic is exact: rounding, overflow and underflow of IEEE doubles are
  outside the model) or one of the three special values that exact arithmetic can
  still produce: \<open>NaN\<close> (from \<open>0/0\<close>, \<open>Math.sqrt\<close> or \<open>Math.log\<close> of a negative
  number) and the two infinities (from \<open>x/0\<close> and \<open>Math.log(0)\<close>).

  Zero carries no sign in the model: a zero divisor is read as \<open>+0\<close>, which is what
  the one divisor of the functions below that can be zero, the difference
  \<open>n * sumXX - sumX * sumX\<close> of \<open>fitGaussian\<close>, evaluates to when its two terms are
  equal. Divisions by a literal (\<open>/ 3\<close>, \<open>/ 2\<close>) and the division \<open>bins[i] / counts[i]\<close>
  under its guard \<open>counts[i] > 0\<close> are written with the division of the reals.
\<close>

datatype number = Num real | NaN | PosInf | NegInf

definition inf_of_sign :: "real \<Rightarrow> number" where
  "inf_of_sign s = (if 0 < s then PosInf else if s < 0 then NegInf else NaN)"

fun js_neg :: "number \<Rightarrow> number" where
  "js_neg (Num a) = Num (- a)"
| "js_neg NaN = NaN"
| "js_neg PosInf = NegInf"
| "js_neg NegInf = PosInf"

fun js_add :: "number \<Rightarrow> number \<Rightarrow> number" where
  "js_add (Num a) (Num b) = Num (a + b)"
| "js_add NaN _ = NaN"
| "js_add _ NaN = NaN"
| "js_add PosInf NegInf = NaN"
| "js_add NegInf PosInf = NaN"
| "js_add PosInf _ = PosInf"
| "js_add _ PosInf = PosInf"
| "js_add NegInf _ = NegInf"
| "js_add _ NegInf = NegInf"

definition js_sub :: "number \<Rightarrow> number \<Rightarrow> number" where
  "js_sub a b = js_add a (js_neg b)"

fun js_mul :: "number \<Rightarrow> number \<Rightarrow> number" where
  "js_mul (Num a) (Num b) = Num (a * b)"
| "js_mul NaN _ = NaN"
| "js_mul _ NaN = NaN"
| "js_mul PosInf (Num b) = inf_of_sign b"
| "js_mul (Num a) PosInf = inf_of_sign a"
| "js_mul NegInf (Num b) = inf_of_sign (- b)"
| "js_mul (Num a) NegInf = inf_of_sign (- a)"
| "js_mul PosInf PosInf = PosInf"
| "js_mul PosInf NegInf = NegInf"
| "js_mul NegInf PosInf = NegInf"
| "js_mul NegInf NegInf = PosInf"

fun js_div :: "number \<Rightarrow> number \<Rightarrow> number" where
  "js_div (Num a) (Num b) = (if b = 0 then inf_of_sign a else Num (a / b))"
| "js_div NaN _ = NaN"
| "js_div _ NaN = NaN"
| "js_div (Num a) PosInf = Num 0"
| "js_div (Num a) NegInf = Num 0"
| "js_div PosInf (Num b) = (if 0 \<le> b then PosInf else NegInf)"
| "js_div NegInf (Num b) = (if 0 \<le> b then NegInf else PosInf)"
| "js_div PosInf PosInf = NaN"
| "js_div PosInf NegInf = NaN"
| "js_div NegInf PosInf = NaN"
| "js_div NegInf NegInf = NaN"

fun js_sqrt :: "number \<Rightarrow> number" where
  "js_sqrt (Num a) = (if a < 0 then NaN else Num (sqrt a))"
| "js_sqrt NaN = NaN"
| "js_sqrt PosInf = PosInf"
| "js_sqrt NegInf = NaN"

fun js_log :: "number \<Rightarrow> number" where
  "js_log (Num a) = (if a < 0 then NaN else if a = 0 then NegInf else Num (ln a))"
| "js_log NaN = NaN"
| "js_log PosInf = PosInf"
| "js_log NegInf = NaN"

text \<open>Comparisons: every comparison with \<open>NaN\<close> is false.\<close>

fun js_lt :: "number \<Rightarrow> number \<Rightarrow> bool" where
  "js_lt (Num a) (Num b) = (a < b)"
| "js_lt NaN _ = False"
| "js_lt _ NaN = False"
| "js_lt PosInf _ = False"
| "js_lt _ PosInf = True"
| "js_lt NegInf (Num b) = True"
| "js_lt _ NegInf = False"

definition js_gt :: "number \<Rightarrow> number \<Rightarrow> bool" where
  "js_gt a b = js_lt b a"

fun js_le :: "number \<Rightarrow> number \<Rightarrow> bool" where
  "js_le (Num a) (Num b) = (a \<le> b)"
| "js_le NaN _ = False"
| "js_le _ NaN = False"
| "js_le NegInf _ = True"
| "js_le _ PosInf = True"
| "js_le PosInf _ = False"
| "js_le _ NegInf = False"

definition js_ge :: "number \<Rightarrow> number \<Rightarrow> bool" where
  "js_ge a b = js_le b a"

section \<open>HighlandEvaluator: \<open>calculateHighlandTheta\<close>\<close>

definition calculateHighlandTheta :: "number \<Rightarrow> number \<Rightarrow> number \<Rightarrow> number \<Rightarrow> number" where
  "calculateHighlandTheta thickness radLength momentum beta =
     (if js_le radLength (Num 0) \<or> js_le momentum (Num 0) \<or> js_le beta (Num 0)
           \<or> js_le thickness (Num 0)
      then Num 0
      else
        let lx = js_div thickness radLength;
            term1 = js_div (Num 17.5) (js_mul beta momentum);
            term2 = js_sqrt lx;
            term3 = js_add (Num 1) (js_mul (Num 0.038) (js_log lx));
            theta = js_mul (js_mul term1 term2) term3
        in if js_gt theta (Num 0) then theta else Num 0)"

section \<open>ScatteringAnalyzer: per-sample summaries and the aggregate RMS angle\<close>

text \<open>
  \<open>FilmSample\<close> and \<open>AnalysisSummary\<close> of \<open>types.ts\<close>. A sigma of a film is \<open>null\<close>
  until an image has been analysed and is then whatever \<open>fitGaussian\<close> returned, so
  it is an optional JavaScript number. The field \<open>id\<close> is called \<open>film_id\<close> here.
\<close>

record FilmSample =
  film_id :: nat
  distanceL :: number
  airImageSrc :: "string option"
  airSigma :: "number option"
  materialImageSrc :: "string option"
  materialSigma :: "number option"

record AnalysisSummary =
  sampleId :: nat
  distance :: number
  sigmaAir :: number
  sigmaMaterial :: number
  sigmaCorrected :: number
  theta :: number
  theoreticalSigma :: number

text \<open>\<open>v || 0\<close> on \<open>number | null\<close>: the falsy values \<open>null\<close>, \<open>0\<close> and \<open>NaN\<close> give \<open>0\<close>.\<close>

definition or_zero :: "number option \<Rightarrow> number" where
  "or_zero v = (case v of None \<Rightarrow> Num 0 | Some NaN \<Rightarrow> Num 0 | Some n \<Rightarrow> n)"

text \<open>The callback of \<open>films.map\<close> in the \<open>results\<close> memo of the application.\<close>

definition summarize :: "number \<Rightarrow> FilmSample \<Rightarrow> AnalysisSummary" where
  "summarize theoreticalTheta f =
     (let sa = or_zero (airSigma f);
          sm = or_zero (materialSigma f);
          diffSq = js_sub (js_mul sm sm) (js_mul sa sa);
          sigmaCorrected = (if js_gt diffSq (Num 0) then js_sqrt diffSq else Num 0)
      in \<lparr> sampleId = film_id f,
           distance = distanceL f,
           sigmaAir = sa,
           sigmaMaterial = sm,
           sigmaCorrected = sigmaCorrected,
           theta = (if js_gt (distanceL f) (Num 0)
                    then js_div sigmaCorrected (distanceL f) else Num 0),
           theoreticalSigma = js_mul theoreticalTheta (distanceL f) \<rparr>)"

definition results :: "number \<Rightarrow> FilmSample list \<Rightarrow> AnalysisSummary list" where
  "results theoreticalTheta films = map (summarize theoreticalTheta) films"

definition thetaRms :: "AnalysisSummary list \<Rightarrow> number" where
  "thetaRms rs =
     (let validThetas = filter (\<lambda>t. js_gt t (Num 0)) (map theta rs)
      in if length validThetas = 0 then Num 0
         else
           let sumSquares = foldl (\<lambda>sum theta. js_add sum (js_mul theta theta)) (Num 0) validThetas
           in js_sqrt (js_div sumSquares (Num (real (length validThetas)))))"

section \<open>GaussianFitter: \<open>fitGaussian\<close>\<close>

text \<open>
  \<open>RadialDataPoint\<close> of \<open>types.ts\<close>; the optional field \<open>fit\<close> is only written by the
  display helper \<open>calculateFitCurve\<close>. Radii and intensities of a profile are finite.
\<close>

record RadialDataPoint =
  radius :: real
  intensity :: real
  fit :: "real option"

text \<open>Step 1, the peak search: \<open>maxIntensity\<close> starts at 0.\<close>

definition find_peak :: "RadialDataPoint list \<Rightarrow> real" where
  "find_peak profile =
     fold (\<lambda>p maxIntensity. if intensity p > maxIntensity then intensity p else maxIntensity)
       profile 0"

text \<open>Step 2, the filter that selects the fit window.\<close>

definition validPoints :: "RadialDataPoint list \<Rightarrow> RadialDataPoint list" where
  "validPoints profile =
     (let maxIntensity = find_peak profile;
          thresholdHigh = maxIntensity * 0.95;
          thresholdLow = maxIntensity * 0.30
      in filter (\<lambda>p. intensity p < thresholdHigh \<and> intensity p > thresholdLow \<and> radius p > 0)
           profile)"

text \<open>Step 3, the body of the regression loop on \<open>(sumX, sumY, sumXY, sumXX)\<close>.\<close>

definition regression_step ::
    "RadialDataPoint \<Rightarrow> number \<times> number \<times> number \<times> number
       \<Rightarrow> number \<times> number \<times> number \<times> number" where
  "regression_step p = (\<lambda>(sumX, sumY, sumXY, sumXX).
     let x = Num (radius p * radius p);
         y = js_log (Num (intensity p))
     in (js_add sumX x, js_add sumY y, js_add sumXY (js_mul x y), js_add sumXX (js_mul x x)))"

definition fitGaussian :: "RadialDataPoint list \<Rightarrow> number" where
  "fitGaussian profile =
     (let vp = validPoints profile
      in if length vp < 5 then Num 0
         else
           case fold regression_step vp (Num 0, Num 0, Num 0, Num 0) of
             (sumX, sumY, sumXY, sumXX) \<Rightarrow>
               let n = Num (real (length vp));
                   slope = js_div (js_sub (js_mul n sumXY) (js_mul sumX sumY))
                                  (js_sub (js_mul n sumXX) (js_mul sumX sumX))
               in if js_ge slope (Num 0) then Num 0
                  else js_sqrt (js_div (Num (- 1)) (js_mul (Num 2) slope)))"

text \<open>
  The fit window and the least-squares slope in the words of the specification, to
  compare \<open>fitGaussian\<close> with: the window keeps the points whose intensity lies strictly
  between 0.30 and 0.95 of the maximum intensity of the profile and whose radius is
  positive; the slope is that of \<open>y = ln intensity\<close> against \<open>x = radius\<^sup>2\<close>.
\<close>

definition fit_window :: "RadialDataPoint list \<Rightarrow> RadialDataPoint list" where
  "fit_window profile =
     filter (\<lambda>p. 0.30 * Max (intensity ` set profile) < intensity p
               \<and> intensity p < 0.95 * Max (intensity ` set profile)
               \<and> 0 < radius p) profile"

definition ols_num :: "RadialDataPoint list \<Rightarrow> real" where
  "ols_num ps =
     real (length ps) * (\<Sum>p\<leftarrow>ps. radius p * radius p * ln (intensity p))
       - (\<Sum>p\<leftarrow>ps. radius p * radius p) * (\<Sum>p\<leftarrow>ps. ln (intensity p))"

definition ols_den :: "RadialDataPoint list \<Rightarrow> real" where
  "ols_den ps =
     real (length ps) * (\<Sum>p\<leftarrow>ps. (radius p * radius p) * (radius p * radius p))
       - (\<Sum>p\<leftarrow>ps. radius p * radius p) * (\<Sum>p\<leftarrow>ps. radius p * radius p)"

definition ols_slope :: "RadialDataPoint list \<Rightarrow> real" where
  "ols_slope ps = ols_num ps / ols_den ps"

text \<open>Profiles used as test inputs below.\<close>

definition pt :: "real \<Rightarrow> real \<Rightarrow> RadialDataPoint" where
  "pt r i = \<lparr> radius = r, intensity = i, fit = None \<rparr>"

definition bell_profile :: "RadialDataPoint list" where
  "bell_profile = [pt 0 10, pt 1 8, pt 2 8, pt 3 8, pt 4 4, pt 5 4]"

definition repeated_radius_profile :: "RadialDataPoint list" where
  "repeated_radius_profile = [pt 1 5, pt 1 5, pt 1 5, pt 1 5, pt 1 5, pt 2 10]"

text \<open>
  The profile of a strip of 15 samples in one row, all of intensity 90 but the black
  one in the middle, at the scale \<open>1/5\<close>: a peak and a flat window of seven points.
\<close>

definition flat_profile :: "RadialDataPoint list" where
  "flat_profile = [pt 0 255, pt (1/5) 90, pt (2/5) 90, pt (3/5) 90, pt (4/5) 90,
                   pt 1 90, pt (6/5) 90, pt (7/5) 90]"

section \<open>Images\<close>

text \<open>
  \<open>ImageData\<close> of the browser: \<open>data\<close> is a \<open>Uint8ClampedArray\<close> of RGBA bytes in row-major
  order, and the platform guarantees \<open>length data = 4 * width * height\<close>, so that every
  read of the two pixel loops is in range (\<open>pixel_index_in_range\<close> below).
\<close>

record ImageData =
  width :: nat
  height :: nat
  data :: "8 word list"

definition wf_image :: "ImageData \<Rightarrow> bool" where
  "wf_image img = (length (data img) = 4 * width img * height img)"

text \<open>
  \<open>Point\<close> of \<open>types.ts\<close>; its fields \<open>x\<close> and \<open>y\<close> are called \<open>px\<close> and \<open>py\<close> here. The
  coordinates of a centroid are results of a division.
\<close>

record Point =
  px :: number
  py :: number

text \<open>
  The intensity of the sample at column \<open>x\<close>, row \<open>y\<close>, as both pixel loops compute it:
  \<open>i = (y * width + x) * 4\<close>, \<open>brightness = (data[i] + data[i+1] + data[i+2]) / 3\<close>,
  \<open>intensity = 255 - brightness\<close>.
\<close>

definition pixel_intensity :: "ImageData \<Rightarrow> nat \<Rightarrow> nat \<Rightarrow> real" where
  "pixel_intensity img x y =
     (let i = (y * width img + x) * 4;
          brightness = (real (unat (data img ! i)) + real (unat (data img ! (i + 1)))
                          + real (unat (data img ! (i + 2)))) / 3
      in 255 - brightness)"

section \<open>CentroidEstimator: \<open>calculateCentroid\<close>\<close>

text \<open>The body of the inner loop on \<open>(totalMass, sumX, sumY)\<close>, at row \<open>y\<close> and column \<open>x\<close>.\<close>

definition centroid_step :: "ImageData \<Rightarrow> nat \<Rightarrow> nat \<Rightarrow> real \<times> real \<times> real \<Rightarrow> real \<times> real \<times> real" where
  "centroid_step img y x = (\<lambda>(totalMass, sumX, sumY).
     let intensity = pixel_intensity img x y
     in if intensity > 20
        then (totalMass + intensity, sumX + real x * intensity, sumY + real y * intensity)
        else (totalMass, sumX, sumY))"

definition centroid_sums :: "ImageData \<Rightarrow> real \<times> real \<times> real" where
  "centroid_sums img =
     fold (\<lambda>y st. fold (centroid_step img y) [0..<width img] st) [0..<height img] (0, 0, 0)"

definition calculateCentroid :: "ImageData \<Rightarrow> Point" where
  "calculateCentroid img =
     (case centroid_sums img of
        (totalMass, sumX, sumY) \<Rightarrow>
          if totalMass = 0
          then \<lparr> px = Num (real (width img) / 2), py = Num (real (height img) / 2) \<rparr>
          else \<lparr> px = js_div (Num sumX) (Num totalMass), py = js_div (Num sumY) (Num totalMass) \<rparr>)"

text \<open>
  The weight of a sample in the words of the specification: its intensity when that is
  above the threshold 20, nothing otherwise; and the total weighted mass of a grid.
\<close>

definition weight :: "ImageData \<Rightarrow> nat \<Rightarrow> nat \<Rightarrow> real" where
  "weight img x y = (if pixel_intensity img x y > 20 then pixel_intensity img x y else 0)"

definition total_mass :: "ImageData \<Rightarrow> real" where
  "total_mass img = (\<Sum>y\<leftarrow>[0..<height img]. \<Sum>x\<leftarrow>[0..<width img]. weight img x y)"

text \<open>A grid of \<open>w\<close> by \<open>h\<close> samples that all have the same four bytes.\<close>

definition uniform_grid :: "nat \<Rightarrow> nat \<Rightarrow> 8 word \<Rightarrow> 8 word \<Rightarrow> 8 word \<Rightarrow> 8 word \<Rightarrow> ImageData" where
  "uniform_grid w h r g b a =
     \<lparr> width = w, height = h, data = concat (replicate (w * h) [r, g, b, a]) \<rparr>"

text \<open>
  A strip of three samples in one row: black, white, and a light grey whose intensity
  15 is below the threshold.
\<close>

definition strip_image :: ImageData where
  "strip_image = \<lparr> width = 3, height = 1,
       data = [0, 0, 0, 255,  255, 255, 255, 255,  240, 240, 240, 255] \<rparr>"

section \<open>RadialProfiler: \<open>calculateRadialProfile\<close>\<close>

definition maxRadius :: "ImageData \<Rightarrow> real" where
  "maxRadius img = sqrt (real (width img * width img + height img * height img)) / 2"

text \<open>\<open>Math.ceil(maxRadius)\<close>, the length of the arrays \<open>bins\<close> and \<open>counts\<close>.\<close>

definition bin_count :: "ImageData \<Rightarrow> nat" where
  "bin_count img = nat \<lceil>maxRadius img\<rceil>"

text \<open>
  The body of the inner loop on \<open>(bins, counts)\<close>, at row \<open>y\<close> and column \<open>x\<close>, for a
  centroid with finite coordinates \<open>cx\<close>, \<open>cy\<close>. \<open>Math.floor(r)\<close> is never negative.
\<close>

definition profile_step ::
    "ImageData \<Rightarrow> real \<Rightarrow> real \<Rightarrow> nat \<Rightarrow> nat \<Rightarrow> real list \<times> nat list \<Rightarrow> real list \<times> nat list" where
  "profile_step img cx cy y x = (\<lambda>(bins, counts).
     let intensity = pixel_intensity img x y;
         dx = real x - cx;
         dy = real y - cy;
         r = sqrt (dx * dx + dy * dy);
         binIdx = \<lfloor>r\<rfloor>
     in if binIdx < int (length bins)
        then (bins[nat binIdx := bins ! nat binIdx + intensity],
              counts[nat binIdx := counts ! nat binIdx + 1])
        else (bins, counts))"

definition accumulate :: "ImageData \<Rightarrow> real \<Rightarrow> real \<Rightarrow> real list \<times> nat list" where
  "accumulate img cx cy =
     fold (\<lambda>y st. fold (profile_step img cx cy y) [0..<width img] st) [0..<height img]
       (replicate (bin_count img) 0, replicate (bin_count img) 0)"

text \<open>The body of the loop that emits the profile from \<open>bins\<close> and \<open>counts\<close>.\<close>

definition emit_step ::
    "real \<Rightarrow> real list \<Rightarrow> nat list \<Rightarrow> nat \<Rightarrow> RadialDataPoint list \<Rightarrow> RadialDataPoint list" where
  "emit_step pixelToMm bins counts i profile =
     (if counts ! i > 0
      then profile @ [\<lparr> radius = real i * pixelToMm,
                         intensity = bins ! i / real (counts ! i), fit = None \<rparr>]
      else profile)"

text \<open>
  The scale \<open>pixelToMm\<close> is a finite number. When a coordinate of the centroid is \<open>NaN\<close>
  or infinite, \<open>r\<close> is \<open>NaN\<close> or \<open>Infinity\<close> for every sample, the test
  \<open>binIdx < bins.length\<close> is false each time, every count stays 0 and the profile is
  empty.
\<close>

definition calculateRadialProfile :: "ImageData \<Rightarrow> Point \<Rightarrow> real \<Rightarrow> RadialDataPoint list" where
  "calculateRadialProfile img centroid pixelToMm =
     (case px centroid of
        Num cx \<Rightarrow>
          (case py centroid of
             Num cy \<Rightarrow>
               (case accumulate img cx cy of
                  (bins, counts) \<Rightarrow> fold (emit_step pixelToMm bins counts) [0..<length bins] [])
           | _ \<Rightarrow> [])
      | _ \<Rightarrow> [])"

text \<open>
  In the words of the specification: the Euclidean pixel distance of a sample from the
  centroid, the sum of the intensities of the samples of bin \<open>k\<close> (those with
  \<open>floor r = k\<close>), and the number of these samples.
\<close>

definition sample_radius :: "real \<Rightarrow> real \<Rightarrow> nat \<Rightarrow> nat \<Rightarrow> real" where
  "sample_radius cx cy x y = sqrt ((real x - cx)\<^sup>2 + (real y - cy)\<^sup>2)"

definition bin_sum :: "ImageData \<Rightarrow> real \<Rightarrow> real \<Rightarrow> nat \<Rightarrow> real" where
  "bin_sum img cx cy k =
     (\<Sum>y\<leftarrow>[0..<height img]. \<Sum>x\<leftarrow>[0..<width img].
        if \<lfloor>sample_radius cx cy x y\<rfloor> = int k then pixel_intensity img x y else 0)"

definition bin_population :: "ImageData \<Rightarrow> real \<Rightarrow> real \<Rightarrow> nat \<Rightarrow> nat" where
  "bin_population img cx cy k =
     (\<Sum>y\<leftarrow>[0..<height img]. \<Sum>x\<leftarrow>[0..<width img].
        if \<lfloor>sample_radius cx cy x y\<rfloor> = int k then 1 else 0)"


section \<open>Properties of \<open>calculateHighlandTheta\<close>\<close>

lemma calculateHighlandTheta_finite:
  "calculateHighlandTheta (Num x) (Num X0) (Num p) (Num b) =
     (if x \<le> 0 \<or> X0 \<le> 0 \<or> p \<le> 0 \<or> b \<le> 0 then Num 0
      else Num (max 0 ((17.5 / (b * p)) * sqrt (x / X0) * (1 + 0.038 * ln (x / X0)))))"
proof (cases "x \<le> 0 \<or> X0 \<le> 0 \<or> p \<le> 0 \<or> b \<le> 0")
  case True
  then show ?thesis
    by (auto simp: calculateHighlandTheta_def)
next
  case False
  then have pos: "0 < x" "0 < X0" "0 < p" "0 < b" by auto
  then have r: "0 < x / X0" and bp: "b * p \<noteq> 0" by simp_all
  define lx where "lx = x / X0"
  have lxpos: "0 < lx"
    using r by (simp add: lx_def)
  have lx: "js_div (Num x) (Num X0) = Num lx" "\<not> lx < 0" "lx \<noteq> 0"
  proof -
    show "js_div (Num x) (Num X0) = Num lx"
      using pos by (simp add: lx_def)
    show "\<not> lx < 0" "lx \<noteq> 0"
      using lxpos by linarith+
  qed
  have t1: "js_div (Num 17.5) (js_mul (Num b) (Num p)) = Num (17.5 / (b * p))"
    using bp by simp
  have guard: "\<not> (js_le (Num X0) (Num 0) \<or> js_le (Num p) (Num 0) \<or> js_le (Num b) (Num 0)
      \<or> js_le (Num x) (Num 0))"
    using pos by simp
  have "calculateHighlandTheta (Num x) (Num X0) (Num p) (Num b) =
      Num (max 0 ((17.5 / (b * p)) * sqrt lx * (1 + 0.038 * ln lx)))"
    unfolding calculateHighlandTheta_def Let_def lx(1) t1 if_not_P [OF guard]
    using lx(2,3) by (simp add: js_gt_def max_def not_less)
  then show ?thesis
    using False by (simp add: lx_def)
qed

lemma calculateHighlandTheta_range:
  "calculateHighlandTheta t r m be \<noteq> NaN \<and> js_ge (calculateHighlandTheta t r m be) (Num 0)"
proof -
  define theta where "theta =
     js_mul (js_mul (js_div (Num 17.5) (js_mul be m)) (js_sqrt (js_div t r)))
            (js_add (Num 1) (js_mul (Num 0.038) (js_log (js_div t r))))"
  have "calculateHighlandTheta t r m be = Num 0
      \<or> calculateHighlandTheta t r m be = (if js_gt theta (Num 0) then theta else Num 0)"
    by (simp add: calculateHighlandTheta_def Let_def theta_def)
  then show ?thesis
    by (cases theta) (auto simp: js_gt_def js_ge_def split: if_splits)
qed

text \<open>
  Claim C3. For all finite thickness \<open>x\<close>, radiation length \<open>X0\<close>, momentum \<open>p\<close> and
  \<open>beta\<close>, \<open>calculateHighlandTheta\<close> returns 0 when one of the four is \<open>\<le> 0\<close>, and
  otherwise the Highland value \<open>(17.5/(beta p)) sqrt(x/X0) (1 + 0.038 ln(x/X0))\<close>
  clamped below at 0. For all inputs whatsoever, \<open>NaN\<close> and the infinities included,
  the result is never \<open>NaN\<close> and never negative.
\<close>

theorem calculateHighlandTheta_spec:
  "calculateHighlandTheta (Num x) (Num X0) (Num p) (Num b) =
     (if x \<le> 0 \<or> X0 \<le> 0 \<or> p \<le> 0 \<or> b \<le> 0 then Num 0
      else Num (max 0 ((17.5 / (b * p)) * sqrt (x / X0) * (1 + 0.038 * ln (x / X0)))))
   \<and> calculateHighlandTheta t r m be \<noteq> NaN
   \<and> js_ge (calculateHighlandTheta t r m be) (Num 0)"
  using calculateHighlandTheta_finite [of x X0 p b] calculateHighlandTheta_range [of t r m be]
  by blast

theorem calculateHighlandTheta_spec_witness:
  "calculateHighlandTheta (Num 1) (Num 1) (Num 35) (Num (1/2)) = Num 1
   \<and> calculateHighlandTheta (Num 0) (Num 1) (Num 35) (Num (1/2)) = Num 0
   \<and> calculateHighlandTheta NaN (Num 1) (Num 35) (Num (1/2)) \<noteq> NaN"
  using calculateHighlandTheta_spec [of 1 1 35 "1/2" NaN "Num 1" "Num 35" "Num (1/2)"]
        calculateHighlandTheta_spec [of 0 1 35 "1/2" NaN "Num 1" "Num 35" "Num (1/2)"]
  by simp

section \<open>Properties of the GaussianFitter\<close>

lemma fold_peak:
  "fold (\<lambda>p m. if intensity p > m then intensity p else m) ps m0
     = Max (insert m0 (intensity ` set ps))"
proof (induction ps arbitrary: m0)
  case Nil
  then show ?case by simp
next
  case (Cons p ps)
  have "Max (insert (max m0 (intensity p)) (intensity ` set ps))
      = Max (insert m0 (insert (intensity p) (intensity ` set ps)))"
    by (cases "set ps = {}") (simp_all add: max.assoc max.commute)
  then show ?case
    using Cons.IH [of "if intensity p > m0 then intensity p else m0"]
    by (simp add: max_def not_less split: if_splits)
qed

lemma find_peak_Max: "find_peak profile = Max (insert 0 (intensity ` set profile))"
  by (simp add: find_peak_def fold_peak)

lemma validPoints_fit_window: "validPoints profile = fit_window profile"
proof (cases "profile = []")
  case True
  then show ?thesis by (simp add: validPoints_def fit_window_def)
next
  case False
  define M where "M = Max (intensity ` set profile)"
  have fp: "find_peak profile = max 0 M"
    using False by (simp add: find_peak_Max M_def)
  have "(\<lambda>p. intensity p < max 0 M * 0.95 \<and> intensity p > max 0 M * 0.30 \<and> radius p > 0)
      = (\<lambda>p. 0.30 * M < intensity p \<and> intensity p < 0.95 * M \<and> 0 < radius p)"
    by (cases "0 \<le> M") (auto simp: max_def fun_eq_iff)
  then show ?thesis
    unfolding validPoints_def fit_window_def Let_def fp M_def [symmetric] by (rule arg_cong)
qed

lemma find_peak_nonneg: "0 \<le> find_peak profile"
  by (simp add: find_peak_Max)

lemma validPoints_positive:
  "p \<in> set (validPoints profile) \<Longrightarrow> 0 < intensity p \<and> 0 < radius p"
  using find_peak_nonneg [of profile]
  by (auto simp: validPoints_def Let_def intro: le_less_trans [of 0 "find_peak profile * 0.30"])

lemma fold_regression:
  "\<forall>p \<in> set ps. 0 < intensity p \<Longrightarrow>
   fold regression_step ps (Num a, Num b, Num c, Num d) =
     (Num (a + (\<Sum>p\<leftarrow>ps. radius p * radius p)),
      Num (b + (\<Sum>p\<leftarrow>ps. ln (intensity p))),
      Num (c + (\<Sum>p\<leftarrow>ps. radius p * radius p * ln (intensity p))),
      Num (d + (\<Sum>p\<leftarrow>ps. (radius p * radius p) * (radius p * radius p))))"
proof (induction ps arbitrary: a b c d)
  case Nil
  then show ?case by simp
next
  case (Cons p ps)
  have step: "regression_step p (Num a, Num b, Num c, Num d) =
      (Num (a + radius p * radius p), Num (b + ln (intensity p)),
       Num (c + radius p * radius p * ln (intensity p)),
       Num (d + (radius p * radius p) * (radius p * radius p)))"
    using Cons.prems by (simp add: regression_step_def Let_def)
  show ?case
    using Cons.prems by (simp add: step Cons.IH add.assoc)
qed

lemma fitGaussian_window:
  assumes "5 \<le> length (validPoints profile)"
  shows "fitGaussian profile =
     (let slope = js_div (Num (ols_num (validPoints profile))) (Num (ols_den (validPoints profile)))
      in if js_ge slope (Num 0) then Num 0
         else js_sqrt (js_div (Num (- 1)) (js_mul (Num 2) slope)))"
proof -
  define vp where "vp = validPoints profile"
  have pos: "\<forall>p \<in> set vp. 0 < intensity p"
    using validPoints_positive by (auto simp: vp_def)
  have f: "fold regression_step vp (Num 0, Num 0, Num 0, Num 0) =
     (Num (\<Sum>p\<leftarrow>vp. radius p * radius p),
      Num (\<Sum>p\<leftarrow>vp. ln (intensity p)),
      Num (\<Sum>p\<leftarrow>vp. radius p * radius p * ln (intensity p)),
      Num (\<Sum>p\<leftarrow>vp. (radius p * radius p) * (radius p * radius p)))"
    using fold_regression [OF pos, of 0 0 0 0] by simp
  have n: "\<not> length vp < 5" using assms by (simp add: vp_def)
  show ?thesis
    unfolding fitGaussian_def vp_def [symmetric] Let_def f
    using n by (simp add: js_sub_def ols_num_def ols_den_def)
qed

text \<open>
  Claim C1. When the fit window of a profile holds at least 5 points and the
  least-squares slope \<open>m\<close> of \<open>ln intensity\<close> against \<open>radius\<^sup>2\<close> over the window is
  strictly negative, \<open>fitGaussian\<close> returns exactly \<open>sqrt (- 1 / (2 m))\<close>, with
  \<open>m = (n \<Sigma>XY - \<Sigma>X \<Sigma>Y) / (n \<Sigma>XX - (\<Sigma>X)\<^sup>2)\<close> over the windowed points.
\<close>

theorem fitGaussian_sigma:
  assumes "5 \<le> length (fit_window profile)"
    and "ols_slope (fit_window profile) < 0"
  shows "fitGaussian profile = Num (sqrt (- 1 / (2 * ols_slope (fit_window profile))))"
proof -
  define m where "m = ols_slope (fit_window profile)"
  have w: "validPoints profile = fit_window profile"
    by (rule validPoints_fit_window)
  have m: "m < 0" using assms(2) by (simp add: m_def)
  then have den: "ols_den (fit_window profile) \<noteq> 0"
    by (auto simp: m_def ols_slope_def)
  have slope: "js_div (Num (ols_num (fit_window profile))) (Num (ols_den (fit_window profile))) = Num m"
    using den by (simp add: m_def ols_slope_def)
  have arg: "\<not> - 1 / (2 * m) < 0"
    using m by (simp add: not_less divide_nonpos_neg)
  have len: "5 \<le> length (validPoints profile)"
    using assms(1) by (simp only: w)
  have "fitGaussian profile =
      (if js_ge (Num m) (Num 0) then Num 0
       else js_sqrt (js_div (Num (- 1)) (js_mul (Num 2) (Num m))))"
    using fitGaussian_window [OF len] unfolding w slope Let_def .
  also have "\<dots> = Num (sqrt (- 1 / (2 * m)))"
    using m arg by (simp add: js_ge_def)
  finally have "fitGaussian profile = Num (sqrt (- 1 / (2 * m)))" .
  then show ?thesis by (simp add: m_def)
qed


lemma sum_affine:
  fixes f g :: "'a \<Rightarrow> real"
  shows "(\<Sum>q\<leftarrow>ps. (a - f q) * (b - g q)) =
     real (length ps) * a * b - a * (\<Sum>q\<leftarrow>ps. g q) - b * (\<Sum>q\<leftarrow>ps. f q)
       + (\<Sum>q\<leftarrow>ps. f q * g q)"
  by (induction ps) (simp_all add: algebra_simps)

lemma sum_combination:
  fixes f g :: "'a \<Rightarrow> real"
  shows "(\<Sum>p\<leftarrow>ps. n * f p * g p - f p * c2 - g p * c3 + c4) =
     n * (\<Sum>p\<leftarrow>ps. f p * g p) - c2 * (\<Sum>p\<leftarrow>ps. f p) - c3 * (\<Sum>p\<leftarrow>ps. g p)
       + real (length ps) * c4"
  by (induction ps) (simp_all add: algebra_simps)

lemma double_sum_identity:
  fixes f g :: "'a \<Rightarrow> real"
  shows "(\<Sum>p\<leftarrow>ps. \<Sum>q\<leftarrow>ps. (f p - f q) * (g p - g q)) =
     2 * (real (length ps) * (\<Sum>p\<leftarrow>ps. f p * g p) - (\<Sum>p\<leftarrow>ps. f p) * (\<Sum>p\<leftarrow>ps. g p))"
proof -
  have "(\<Sum>p\<leftarrow>ps. \<Sum>q\<leftarrow>ps. (f p - f q) * (g p - g q)) =
      (\<Sum>p\<leftarrow>ps. real (length ps) * f p * g p - f p * (\<Sum>q\<leftarrow>ps. g q)
          - g p * (\<Sum>q\<leftarrow>ps. f q) + (\<Sum>q\<leftarrow>ps. f q * g q))"
    by (simp only: sum_affine)
  also have "\<dots> = 2 * (real (length ps) * (\<Sum>p\<leftarrow>ps. f p * g p)
        - (\<Sum>p\<leftarrow>ps. f p) * (\<Sum>p\<leftarrow>ps. g p))"
    by (simp only: sum_combination) (simp add: algebra_simps)
  finally show ?thesis .
qed

lemma ols_num_double_sum:
  "2 * ols_num ps =
     (\<Sum>p\<leftarrow>ps. \<Sum>q\<leftarrow>ps. (radius p * radius p - radius q * radius q)
                          * (ln (intensity p) - ln (intensity q)))"
  by (simp only: double_sum_identity ols_num_def)

lemma ols_den_double_sum:
  "2 * ols_den ps =
     (\<Sum>p\<leftarrow>ps. \<Sum>q\<leftarrow>ps. (radius p * radius p - radius q * radius q)
                          * (radius p * radius p - radius q * radius q))"
  by (simp only: double_sum_identity ols_den_def)

lemma double_sum_nonneg:
  fixes h :: "'a \<Rightarrow> 'a \<Rightarrow> real"
  assumes "\<And>p q. p \<in> set ps \<Longrightarrow> q \<in> set ps \<Longrightarrow> 0 \<le> h p q"
  shows "0 \<le> (\<Sum>p\<leftarrow>ps. \<Sum>q\<leftarrow>ps. h p q)"
  by (intro sum_list_nonneg) (auto intro!: sum_list_nonneg assms)

lemma double_sum_ge_term:
  fixes h :: "'a \<Rightarrow> 'a \<Rightarrow> real"
  assumes nn: "\<And>p q. p \<in> set ps \<Longrightarrow> q \<in> set ps \<Longrightarrow> 0 \<le> h p q"
    and a: "a \<in> set ps" and b: "b \<in> set ps"
  shows "h a b \<le> (\<Sum>p\<leftarrow>ps. \<Sum>q\<leftarrow>ps. h p q)"
proof -
  have "h a b \<le> (\<Sum>q\<leftarrow>ps. h a q)"
    using a b by (intro member_le_sum_list) (auto intro: nn)
  also have "\<dots> \<le> (\<Sum>p\<leftarrow>ps. \<Sum>q\<leftarrow>ps. h p q)"
    using a by (intro member_le_sum_list) (auto intro!: sum_list_nonneg nn)
  finally show ?thesis .
qed

lemma ols_den_nonneg: "0 \<le> ols_den ps"
proof -
  have "0 \<le> 2 * ols_den ps"
    unfolding ols_den_double_sum by (rule double_sum_nonneg) simp
  then show ?thesis by simp
qed

lemma ols_den_pos:
  assumes "a \<in> set ps" "b \<in> set ps" "radius a * radius a \<noteq> radius b * radius b"
  shows "0 < ols_den ps"
proof -
  let ?h = "\<lambda>p q. (radius p * radius p - radius q * radius q)
                    * (radius p * radius p - radius q * radius q)"
  have "radius a * radius a - radius b * radius b \<noteq> 0"
    using assms(3) by simp
  then have "0 < ?h a b"
    using not_real_square_gt_zero by blast
  also have "?h a b \<le> 2 * ols_den ps"
    unfolding ols_den_double_sum
    by (rule double_sum_ge_term [where h = ?h, OF _ assms(1,2)]) simp
  finally show ?thesis by simp
qed

lemma bell_window:
  "fit_window bell_profile = [pt 1 8, pt 2 8, pt 3 8, pt 4 4, pt 5 4]"
  by (simp add: fit_window_def bell_profile_def pt_def)

lemma bell_slope: "ols_slope (fit_window bell_profile) = (ln 4 - ln 8) * 95 / 1870"
  by (simp add: bell_window ols_slope_def ols_num_def ols_den_def pt_def algebra_simps)

theorem fitGaussian_sigma_witness:
  "5 \<le> length (fit_window bell_profile)
   \<and> ols_slope (fit_window bell_profile) < 0
   \<and> fitGaussian bell_profile = Num (sqrt (- 1 / (2 * ((ln 4 - ln 8) * 95 / 1870))))"
proof -
  have l: "5 \<le> length (fit_window bell_profile)"
    by (simp add: bell_window)
  have "ln (4::real) < ln 8" by simp
  then have m: "ols_slope (fit_window bell_profile) < 0"
    by (simp add: bell_slope)
  show ?thesis
    using l m fitGaussian_sigma [OF l m] by (simp add: bell_slope)
qed

lemma repeated_window:
  "validPoints repeated_radius_profile = [pt 1 5, pt 1 5, pt 1 5, pt 1 5, pt 1 5]"
  by (simp add: validPoints_fit_window fit_window_def repeated_radius_profile_def pt_def)

text \<open>
  The two refusals of the fit: a window of fewer than 5 points, and a slope that is
  defined (the windowed radii are not all equal) and not negative.
\<close>

lemma fitGaussian_refuses_small_window:
  "length (fit_window profile) < 5 \<Longrightarrow> fitGaussian profile = Num 0"
  by (simp add: fitGaussian_def validPoints_fit_window)

lemma fitGaussian_refuses_nonneg_slope:
  assumes "5 \<le> length (fit_window profile)"
    and "ols_den (fit_window profile) \<noteq> 0"
    and "0 \<le> ols_slope (fit_window profile)"
  shows "fitGaussian profile = Num 0"
proof -
  have len: "5 \<le> length (validPoints profile)"
    using assms(1) by (simp only: validPoints_fit_window)
  have slope: "js_div (Num (ols_num (fit_window profile))) (Num (ols_den (fit_window profile)))
      = Num (ols_slope (fit_window profile))"
    using assms(2) by (simp add: ols_slope_def)
  show ?thesis
    using fitGaussian_window [OF len] assms(3)
    unfolding validPoints_fit_window slope Let_def by (simp add: js_ge_def)
qed

text \<open>
  A profile with pairwise distinct radii whose intensity does not decrease with the
  radius is refused: numerator and denominator of the slope are half the double sums
  of \<open>(x\<^sub>i - x\<^sub>j) (y\<^sub>i - y\<^sub>j)\<close> and of \<open>(x\<^sub>i - x\<^sub>j)\<^sup>2\<close>.
\<close>

lemma ols_num_nonneg:
  assumes pos: "\<And>p. p \<in> set ps \<Longrightarrow> 0 < intensity p \<and> 0 < radius p"
    and mono: "\<And>p q. p \<in> set ps \<Longrightarrow> q \<in> set ps \<Longrightarrow> radius p < radius q
                 \<Longrightarrow> intensity p \<le> intensity q"
  shows "0 \<le> ols_num ps"
proof -
  have tm: "0 \<le> (radius p * radius p - radius q * radius q)
                   * (ln (intensity p) - ln (intensity q))"
    if p: "p \<in> set ps" and q: "q \<in> set ps" for p q
  proof -
    have pp: "0 < intensity p" "0 < radius p" and qq: "0 < intensity q" "0 < radius q"
      using pos [OF p] pos [OF q] by simp_all
    consider "radius p < radius q" | "radius p = radius q" | "radius q < radius p"
      by linarith
    then show ?thesis
    proof cases
      case 1
      then have "radius p * radius p \<le> radius q * radius q"
        using pp qq by (intro mult_mono) simp_all
      moreover have "ln (intensity p) \<le> ln (intensity q)"
        using mono [OF p q 1] pp qq by simp
      ultimately show ?thesis
        by (intro mult_nonpos_nonpos) simp_all
    next
      case 2
      then show ?thesis by simp
    next
      case 3
      then have "radius q * radius q \<le> radius p * radius p"
        using pp qq by (intro mult_mono) simp_all
      moreover have "ln (intensity q) \<le> ln (intensity p)"
        using mono [OF q p 3] pp qq by simp
      ultimately show ?thesis
        by (intro mult_nonneg_nonneg) simp_all
    qed
  qed
  have "0 \<le> 2 * ols_num ps"
    unfolding ols_num_double_sum by (rule double_sum_nonneg) (rule tm)
  then show ?thesis by simp
qed

lemma fitGaussian_refuses_increasing:
  assumes dist: "distinct (map radius profile)"
    and mono: "\<And>p q. p \<in> set profile \<Longrightarrow> q \<in> set profile \<Longrightarrow> radius p < radius q
                 \<Longrightarrow> intensity p \<le> intensity q"
  shows "fitGaussian profile = Num 0"
proof (cases "length (fit_window profile) < 5")
  case True
  then show ?thesis by (rule fitGaussian_refuses_small_window)
next
  case False
  define w where "w = fit_window profile"
  have len: "5 \<le> length w" using False by (simp add: w_def)
  have sub: "set w \<subseteq> set profile" by (auto simp: w_def fit_window_def)
  have pos: "0 < intensity p \<and> 0 < radius p" if "p \<in> set w" for p
    using that validPoints_positive [of p profile] by (simp add: w_def validPoints_fit_window)
  have dw: "distinct (map radius w)"
    unfolding w_def fit_window_def using dist by (rule distinct_map_filter)
  obtain a b rest where w: "w = a # b # rest"
    using len by (cases w; cases "tl w") auto
  have ab: "radius a \<noteq> radius b" using dw by (auto simp: w)
  have a: "a \<in> set w" and b: "b \<in> set w" by (simp_all add: w)
  have "radius a * radius a \<noteq> radius b * radius b"
  proof
    assume "radius a * radius a = radius b * radius b"
    then have "(radius a)\<^sup>2 = (radius b)\<^sup>2" by (simp add: power2_eq_square)
    then have "radius a = radius b"
      using pos [OF a] pos [OF b] by (simp add: power2_eq_iff_nonneg)
    then show False using ab by simp
  qed
  then have den: "0 < ols_den w" by (rule ols_den_pos [OF a b])
  have num: "0 \<le> ols_num w"
    using pos mono sub by (intro ols_num_nonneg) auto
  have "0 \<le> ols_slope w"
    using den num by (simp add: ols_slope_def)
  then show ?thesis
    using len den by (intro fitGaussian_refuses_nonneg_slope) (simp_all add: w_def)
qed

text \<open>
  The value of \<open>fitGaussian\<close> is \<open>NaN\<close> or a finite number that is not negative, so
  the sigma that an analysis stores and \<open>|| 0\<close> reads back is always finite and not
  negative.
\<close>

lemma fit_result_range:
  assumes "\<not> js_ge slope (Num 0)"
  shows "js_sqrt (js_div (Num (- 1)) (js_mul (Num 2) slope)) = NaN
     \<or> (\<exists>s. js_sqrt (js_div (Num (- 1)) (js_mul (Num 2) slope)) = Num s \<and> 0 \<le> s)"
proof (cases slope)
  case (Num m)
  then have m: "m < 0" using assms by (simp add: js_ge_def)
  then have "\<not> - 1 / (2 * m) < 0"
    by (simp add: not_less divide_nonpos_neg)
  then show ?thesis
    using m by (simp add: Num)
next
  case NaN
  then show ?thesis by simp
next
  case PosInf
  then show ?thesis using assms by (simp add: js_ge_def)
next
  case NegInf
  then show ?thesis by (simp add: inf_of_sign_def)
qed

lemma fitGaussian_range:
  "fitGaussian profile = NaN \<or> (\<exists>s. fitGaussian profile = Num s \<and> 0 \<le> s)"
proof (cases "length (validPoints profile) < 5")
  case True
  then show ?thesis by (simp add: fitGaussian_def)
next
  case False
  obtain sumX sumY sumXY sumXX where
    f: "fold regression_step (validPoints profile) (Num 0, Num 0, Num 0, Num 0)
          = (sumX, sumY, sumXY, sumXX)"
    by (cases "fold regression_step (validPoints profile) (Num 0, Num 0, Num 0, Num 0)") auto
  define slope where "slope =
     js_div (js_sub (js_mul (Num (real (length (validPoints profile)))) sumXY) (js_mul sumX sumY))
            (js_sub (js_mul (Num (real (length (validPoints profile)))) sumXX) (js_mul sumX sumX))"
  have eq: "fitGaussian profile =
      (if js_ge slope (Num 0) then Num 0
       else js_sqrt (js_div (Num (- 1)) (js_mul (Num 2) slope)))"
    using False by (simp add: fitGaussian_def Let_def f slope_def)
  show ?thesis
  proof (cases "js_ge slope (Num 0)")
    case True
    then show ?thesis by (simp add: eq)
  next
    case False
    then show ?thesis
      using fit_result_range [OF False] by (simp add: eq)
  qed
qed

lemma stored_sigma_range:
  "\<exists>s. or_zero (Some (fitGaussian profile)) = Num s \<and> 0 \<le> s"
  using fitGaussian_range [of profile] by (auto simp: or_zero_def)

text \<open>
  Claim C4 says that \<open>fitGaussian\<close> returns exactly 0 for every profile with fewer than
  5 points in the window, for every profile with slope \<open>\<ge> 0\<close>, and in particular for
  any profile whose intensity increases monotonically with the radius. In exact
  arithmetic the three lemmas above give this whenever the slope is defined, and the
  slope is defined for every profile with pairwise distinct radii. It is \<open>0/0\<close> when
  all windowed points share one radius; the test \<open>slope >= 0\<close> is false for \<open>NaN\<close> and the
  function then returns \<open>NaN\<close>.
\<close>

lemma repeated_radius_NaN:
  "fitGaussian repeated_radius_profile = NaN"
proof -
  have l: "5 \<le> length (validPoints repeated_radius_profile)"
    by (simp add: repeated_window)
  have n: "ols_num (validPoints repeated_radius_profile) = 0"
    by (simp add: repeated_window ols_num_def pt_def)
  have d: "ols_den (validPoints repeated_radius_profile) = 0"
    by (simp add: repeated_window ols_den_def pt_def)
  show ?thesis
    unfolding fitGaussian_window [OF l] n d
    by (simp add: inf_of_sign_def js_ge_def)
qed

text \<open>
  On a flat window the slope is exactly 0 and, in exact arithmetic, the fit is
  refused. The program computes the numerator \<open>n * sumXY - sumX * sumY\<close> in IEEE
  doubles, where the two products need not round to the same number; that rounding is
  outside this model.
\<close>

lemma flat_window:
  "fit_window flat_profile =
     [pt (1/5) 90, pt (2/5) 90, pt (3/5) 90, pt (4/5) 90, pt 1 90, pt (6/5) 90, pt (7/5) 90]"
  by (simp add: fit_window_def flat_profile_def pt_def)

lemma flat_profile_exact:
  "length (fit_window flat_profile) = 7
   \<and> ols_den (fit_window flat_profile) \<noteq> 0
   \<and> ols_slope (fit_window flat_profile) = 0
   \<and> fitGaussian flat_profile = Num 0"
proof -
  have n: "ols_num (fit_window flat_profile) = 0"
    by (simp add: flat_window ols_num_def pt_def algebra_simps)
  have d: "ols_den (fit_window flat_profile) \<noteq> 0"
    by (simp add: flat_window ols_den_def pt_def)
  have s: "ols_slope (fit_window flat_profile) = 0"
    by (simp add: ols_slope_def n)
  have "fitGaussian flat_profile = Num 0"
    using d s by (intro fitGaussian_refuses_nonneg_slope) (simp_all add: flat_window)
  then show ?thesis
    using d s by (simp add: flat_window)
qed

text \<open>A profile with pairwise distinct radii never gives \<open>NaN\<close>.\<close>

lemma fitGaussian_distinct_finite:
  assumes "distinct (map radius profile)"
  shows "\<exists>s. fitGaussian profile = Num s \<and> 0 \<le> s"
proof (cases "length (fit_window profile) < 5")
  case True
  then show ?thesis by (simp add: fitGaussian_refuses_small_window)
next
  case False
  define w where "w = fit_window profile"
  have len: "5 \<le> length w" using False by (simp add: w_def)
  have pos: "0 < intensity p \<and> 0 < radius p" if "p \<in> set w" for p
    using that validPoints_positive [of p profile] by (simp add: w_def validPoints_fit_window)
  have dw: "distinct (map radius w)"
    unfolding w_def fit_window_def using assms by (rule distinct_map_filter)
  obtain a b rest where w: "w = a # b # rest"
    using len by (cases w; cases "tl w") auto
  have ab: "radius a \<noteq> radius b" using dw by (auto simp: w)
  have a: "a \<in> set w" and b: "b \<in> set w" by (simp_all add: w)
  have "radius a * radius a \<noteq> radius b * radius b"
  proof
    assume "radius a * radius a = radius b * radius b"
    then have "(radius a)\<^sup>2 = (radius b)\<^sup>2" by (simp add: power2_eq_square)
    then have "radius a = radius b"
      using pos [OF a] pos [OF b] by (simp add: power2_eq_iff_nonneg)
    then show False using ab by simp
  qed
  then have den: "ols_den w \<noteq> 0"
    using ols_den_pos [OF a b] by simp
  define m where "m = ols_num w / ols_den w"
  have slope: "js_div (Num (ols_num w)) (Num (ols_den w)) = Num m"
    using den by (simp add: m_def)
  have lenv: "5 \<le> length (validPoints profile)"
    using len by (simp add: w_def validPoints_fit_window)
  have eq: "fitGaussian profile =
      (if js_ge (Num m) (Num 0) then Num 0
       else js_sqrt (js_div (Num (- 1)) (js_mul (Num 2) (Num m))))"
    using fitGaussian_window [OF lenv]
    unfolding validPoints_fit_window w_def [symmetric] slope Let_def .
  have "fitGaussian profile \<noteq> NaN"
  proof (cases "0 \<le> m")
    case True
    then show ?thesis by (simp add: eq js_ge_def)
  next
    case False
    then have "\<not> - 1 / (2 * m) < 0"
      by (simp add: not_less divide_nonpos_neg)
    then show ?thesis
      using False by (simp add: eq js_ge_def)
  qed
  then show ?thesis
    using fitGaussian_range [of profile] by simp
qed

section \<open>Properties of the ScatteringAnalyzer\<close>

lemma sigmaCorrected_cases:
  "sigmaCorrected (summarize th f) \<noteq> NaN \<and> js_ge (sigmaCorrected (summarize th f)) (Num 0)"
proof -
  define d where "d = js_sub (js_mul (or_zero (materialSigma f)) (or_zero (materialSigma f)))
     (js_mul (or_zero (airSigma f)) (or_zero (airSigma f)))"
  have sc: "sigmaCorrected (summarize th f) = (if js_gt d (Num 0) then js_sqrt d else Num 0)"
    by (simp add: summarize_def Let_def d_def)
  show ?thesis
    unfolding sc by (cases d) (auto simp: js_gt_def js_ge_def)
qed

lemma foldl_squares:
  "foldl (\<lambda>sum theta. js_add sum (js_mul theta theta)) (Num a) (map Num ts)
     = Num (a + sum_list (map (\<lambda>t. t * t) ts))"
  by (induction ts arbitrary: a) (simp_all add: add.assoc)

lemma filter_gt_Num:
  "filter (\<lambda>t. js_gt t (Num 0)) (map Num ts) = map Num (filter (\<lambda>t. 0 < t) ts)"
  by (induction ts) (simp_all add: js_gt_def)

lemma sum_squares_nonneg: "0 \<le> sum_list (map (\<lambda>t::real. t * t) ts)"
  by (induction ts) simp_all

text \<open>
  Claim C5. For a sequence of summaries with finite angles \<open>ts\<close>, \<open>thetaRms\<close> is the
  square root of the mean of \<open>theta\<^sup>2\<close> over exactly the samples with \<open>theta > 0\<close>
  (a sample with \<open>theta = 0\<close> is left out of the mean, it does not count as a zero),
  and it is 0 when no sample has \<open>theta > 0\<close>.
\<close>

theorem thetaRms_spec:
  assumes "map theta rs = map Num ts"
  shows "thetaRms rs =
     Num (let v = filter (\<lambda>t. 0 < t) ts
          in if v = [] then 0
             else sqrt (sum_list (map (\<lambda>t. t * t) v) / real (length v)))"
proof -
  define v where "v = filter (\<lambda>t. 0 < t) ts"
  have f: "filter (\<lambda>t. js_gt t (Num 0)) (map theta rs) = map Num v"
    by (simp add: assms filter_gt_Num v_def)
  show ?thesis
  proof (cases "v = []")
    case True
    then show ?thesis
      by (simp add: thetaRms_def f v_def [symmetric])
  next
    case False
    then have n: "real (length v) \<noteq> 0" by simp
    have nn: "\<not> sum_list (map (\<lambda>t. t * t) v) / real (length v) < 0"
      using sum_squares_nonneg [of v] by (simp add: not_less)
    show ?thesis
      using False n nn
      by (simp add: thetaRms_def f v_def [symmetric] Let_def foldl_squares)
  qed
qed


lemma sqrt_16: "sqrt 16 = 4"
  by (rule real_sqrt_unique) simp_all

lemma or_zero_fin:
  "or_zero (map_option Num ao) = Num (case ao of None \<Rightarrow> 0 | Some v \<Rightarrow> v)"
  by (cases ao) (simp_all add: or_zero_def)

lemma sigmaCorrected_zero:
  assumes "\<bar>m'\<bar> \<le> \<bar>a'\<bar>"
  shows "sigmaCorrected (summarize t (f\<lparr>airSigma := Some (Num a'), materialSigma := Some (Num m')\<rparr>))
     = Num 0"
proof -
  have "m' * m' \<le> a' * a'"
    using assms by (metis abs_le_square_iff power2_eq_square)
  then show ?thesis
    by (simp add: summarize_def or_zero_def js_sub_def js_gt_def Let_def)
qed

text \<open>
  Claim C2. For every film whose sigmas are finite or missing (a missing sigma counts
  as 0), the summary has
  \<open>sigmaCorrected = sqrt (max 0 (sigmaMaterial\<^sup>2 - sigmaAir\<^sup>2))\<close>,
  \<open>theta = sigmaCorrected / distance\<close> when \<open>distance > 0\<close> and 0 otherwise, and
  \<open>theoreticalSigma = thetaHighland * distance\<close>. For every film whatsoever
  \<open>sigmaCorrected\<close> is never \<open>NaN\<close> and never negative. A sigma is a width: it is 0 when
  \<open>sigmaMaterial \<le> sigmaAir\<close> for a material sigma that is not negative, and it is 4 for
  \<open>sigmaAir = 3\<close>, \<open>sigmaMaterial = 5\<close>. Every sigma that the application stores is
  the value of \<open>fitGaussian\<close> and reaches the summary through \<open>|| 0\<close>: it is finite and
  not negative.
\<close>

theorem summarize_spec:
  "summarize (Num th) \<lparr> film_id = i, distanceL = Num d, airImageSrc = s1,
        airSigma = map_option Num ao, materialImageSrc = s2,
        materialSigma = map_option Num mo \<rparr> =
     (let a = (case ao of None \<Rightarrow> 0 | Some v \<Rightarrow> v);
          m = (case mo of None \<Rightarrow> 0 | Some v \<Rightarrow> v);
          sc = sqrt (max 0 (m * m - a * a))
      in \<lparr> sampleId = i, distance = Num d, sigmaAir = Num a, sigmaMaterial = Num m,
           sigmaCorrected = Num sc,
           theta = Num (if 0 < d then sc / d else 0),
           theoreticalSigma = Num (th * d) \<rparr>)
   \<and> sigmaCorrected (summarize t f) \<noteq> NaN
   \<and> js_ge (sigmaCorrected (summarize t f)) (Num 0)
   \<and> (0 \<le> m' \<longrightarrow> m' \<le> a' \<longrightarrow>
        sigmaCorrected (summarize t (f\<lparr>airSigma := Some (Num a'), materialSigma := Some (Num m')\<rparr>)) = Num 0)
   \<and> sigmaCorrected (summarize t (f\<lparr>airSigma := Some (Num 3), materialSigma := Some (Num 5)\<rparr>)) = Num 4
   \<and> results t films = map (summarize t) films
   \<and> (\<exists>s. or_zero (Some (fitGaussian profile)) = Num s \<and> 0 \<le> s)"
proof -
  define a where "a = (case ao of None \<Rightarrow> 0 | Some v \<Rightarrow> v)"
  define m where "m = (case mo of None \<Rightarrow> 0 | Some v \<Rightarrow> v)"
  have 1: "summarize (Num th) \<lparr> film_id = i, distanceL = Num d, airImageSrc = s1,
        airSigma = map_option Num ao, materialImageSrc = s2,
        materialSigma = map_option Num mo \<rparr> =
      \<lparr> sampleId = i, distance = Num d, sigmaAir = Num a, sigmaMaterial = Num m,
           sigmaCorrected = Num (sqrt (max 0 (m * m - a * a))),
           theta = Num (if 0 < d then sqrt (max 0 (m * m - a * a)) / d else 0),
           theoreticalSigma = Num (th * d) \<rparr>"
    by (simp add: summarize_def or_zero_fin a_def [symmetric] m_def [symmetric]
        js_sub_def js_gt_def max_def Let_def)
  have 2: "0 \<le> m' \<longrightarrow> m' \<le> a' \<longrightarrow>
        sigmaCorrected (summarize t (f\<lparr>airSigma := Some (Num a'), materialSigma := Some (Num m')\<rparr>)) = Num 0"
    by (intro impI sigmaCorrected_zero) simp
  have 3: "sigmaCorrected (summarize t (f\<lparr>airSigma := Some (Num 3), materialSigma := Some (Num 5)\<rparr>)) = Num 4"
    by (simp add: summarize_def or_zero_def js_sub_def js_gt_def sqrt_16 Let_def)
  show ?thesis
    using 1 2 3 sigmaCorrected_cases [of t f] stored_sigma_range [of profile]
    by (simp add: a_def m_def results_def Let_def)
qed

theorem summarize_spec_witness:
  "(0::real) \<le> 3 \<and> (3::real) \<le> 5
   \<and> sigmaCorrected (summarize (Num 0) \<lparr> film_id = 1, distanceL = Num 100, airImageSrc = None,
        airSigma = Some (Num 5), materialImageSrc = None, materialSigma = Some (Num 3) \<rparr>) = Num 0"
  using summarize_spec [of 0 1 100 None "Some 5" None "Some 3" "Num 0" 
     "\<lparr> film_id = 1, distanceL = Num 100, airImageSrc = None,
        airSigma = Some (Num 5), materialImageSrc = None, materialSigma = Some (Num 3) \<rparr>" 3 5 "[]"]
  by simp

theorem thetaRms_spec_witness:
  "thetaRms [\<lparr> sampleId = 1, distance = Num 100, sigmaAir = Num 0, sigmaMaterial = Num 1,
               sigmaCorrected = Num 1, theta = Num (1/100), theoreticalSigma = Num 0 \<rparr>,
             \<lparr> sampleId = 2, distance = Num 100, sigmaAir = Num 0, sigmaMaterial = Num 2,
               sigmaCorrected = Num 2, theta = Num (2/100), theoreticalSigma = Num 0 \<rparr>,
             \<lparr> sampleId = 3, distance = Num 100, sigmaAir = Num 0, sigmaMaterial = Num 0,
               sigmaCorrected = Num 0, theta = Num 0, theoreticalSigma = Num 0 \<rparr>]
     = Num (sqrt (((1/100) * (1/100) + (2/100) * (2/100)) / 2))"
  using thetaRms_spec [of _ "[1/100, 2/100, 0]"]
  by simp

section \<open>Properties of the CentroidEstimator\<close>

lemma pixel_index_in_range:
  assumes "wf_image img" "x < width img" "y < height img"
  shows "(y * width img + x) * 4 + 2 < length (data img)"
proof -
  have "y * width img + x < (y + 1) * width img"
    using assms(2) by simp
  also have "\<dots> \<le> height img * width img"
    using assms(3) by (intro mult_le_mono1) simp
  finally have "(y * width img + x) * 4 + 4 \<le> 4 * width img * height img"
    by (simp add: algebra_simps)
  then show ?thesis using assms(1) by (simp add: wf_image_def)
qed

lemma centroid_step_weight:
  "centroid_step img y x (t, sx, sy) =
     (t + weight img x y, sx + real x * weight img x y, sy + real y * weight img x y)"
  by (simp add: centroid_step_def weight_def Let_def)

lemma fold_centroid_row:
  "fold (centroid_step img y) xs (t, sx, sy) =
     (t + (\<Sum>x\<leftarrow>xs. weight img x y),
      sx + (\<Sum>x\<leftarrow>xs. real x * weight img x y),
      sy + (\<Sum>x\<leftarrow>xs. real y * weight img x y))"
  by (induction xs arbitrary: t sx sy) (simp_all add: centroid_step_weight add.assoc)

lemma fold_centroid_rows:
  "fold (\<lambda>y st. fold (centroid_step img y) xs st) ys (t, sx, sy) =
     (t + (\<Sum>y\<leftarrow>ys. \<Sum>x\<leftarrow>xs. weight img x y),
      sx + (\<Sum>y\<leftarrow>ys. \<Sum>x\<leftarrow>xs. real x * weight img x y),
      sy + (\<Sum>y\<leftarrow>ys. \<Sum>x\<leftarrow>xs. real y * weight img x y))"
  by (induction ys arbitrary: t sx sy) (simp_all add: fold_centroid_row add.assoc)

lemma centroid_sums_eq:
  "centroid_sums img =
     (total_mass img,
      (\<Sum>y\<leftarrow>[0..<height img]. \<Sum>x\<leftarrow>[0..<width img]. real x * weight img x y),
      (\<Sum>y\<leftarrow>[0..<height img]. \<Sum>x\<leftarrow>[0..<width img]. real y * weight img x y))"
  by (simp add: centroid_sums_def fold_centroid_rows total_mass_def)

lemma weight_nonneg: "0 \<le> weight img x y"
  by (simp add: weight_def)

lemma total_mass_nonneg: "0 \<le> total_mass img"
  unfolding total_mass_def by (intro sum_list_nonneg) (auto intro!: sum_list_nonneg weight_nonneg)

lemma row_sum_le:
  assumes "\<And>x. x \<in> set xs \<Longrightarrow> real x \<le> c"
  shows "(\<Sum>x\<leftarrow>xs. real x * weight img x y) \<le> c * (\<Sum>x\<leftarrow>xs. weight img x y)"
proof -
  have "(\<Sum>x\<leftarrow>xs. real x * weight img x y) \<le> (\<Sum>x\<leftarrow>xs. c * weight img x y)"
    by (intro sum_list_mono mult_right_mono assms weight_nonneg)
  then show ?thesis by (simp add: sum_list_const_mult)
qed

lemma sumX_le:
  "(\<Sum>y\<leftarrow>[0..<h]. \<Sum>x\<leftarrow>[0..<w]. real x * weight img x y)
     \<le> (real w - 1) * (\<Sum>y\<leftarrow>[0..<h]. \<Sum>x\<leftarrow>[0..<w]. weight img x y)"
proof -
  have "(\<Sum>y\<leftarrow>[0..<h]. \<Sum>x\<leftarrow>[0..<w]. real x * weight img x y)
      \<le> (\<Sum>y\<leftarrow>[0..<h]. (real w - 1) * (\<Sum>x\<leftarrow>[0..<w]. weight img x y))"
    by (intro sum_list_mono row_sum_le) auto
  then show ?thesis by (simp add: sum_list_const_mult)
qed

lemma sumY_le:
  "(\<Sum>y\<leftarrow>[0..<h]. \<Sum>x\<leftarrow>[0..<w]. real y * weight img x y)
     \<le> (real h - 1) * (\<Sum>y\<leftarrow>[0..<h]. \<Sum>x\<leftarrow>[0..<w]. weight img x y)"
proof -
  have "(\<Sum>y\<leftarrow>[0..<h]. \<Sum>x\<leftarrow>[0..<w]. real y * weight img x y)
      = (\<Sum>y\<leftarrow>[0..<h]. real y * (\<Sum>x\<leftarrow>[0..<w]. weight img x y))"
    by (simp add: sum_list_const_mult)
  also have "\<dots> \<le> (\<Sum>y\<leftarrow>[0..<h]. (real h - 1) * (\<Sum>x\<leftarrow>[0..<w]. weight img x y))"
    by (intro sum_list_mono mult_right_mono sum_list_nonneg) (auto simp: weight_nonneg)
  finally show ?thesis by (simp add: sum_list_const_mult)
qed

lemma sumX_nonneg: "0 \<le> (\<Sum>y\<leftarrow>ys. \<Sum>x\<leftarrow>xs. real x * weight img x y)"
  by (intro sum_list_nonneg) (auto intro!: sum_list_nonneg mult_nonneg_nonneg weight_nonneg)

lemma sumY_nonneg: "0 \<le> (\<Sum>y\<leftarrow>ys. \<Sum>x\<leftarrow>xs. real y * weight img x y)"
  by (intro sum_list_nonneg) (auto intro!: sum_list_nonneg mult_nonneg_nonneg weight_nonneg)

lemma calculateCentroid_zero_mass:
  "total_mass img = 0 \<Longrightarrow>
   calculateCentroid img = \<lparr> px = Num (real (width img) / 2), py = Num (real (height img) / 2) \<rparr>"
  by (simp add: calculateCentroid_def centroid_sums_eq)

lemma calculateCentroid_positive_mass:
  "total_mass img \<noteq> 0 \<Longrightarrow>
   calculateCentroid img =
     \<lparr> px = Num ((\<Sum>y\<leftarrow>[0..<height img]. \<Sum>x\<leftarrow>[0..<width img]. real x * weight img x y)
                  / total_mass img),
       py = Num ((\<Sum>y\<leftarrow>[0..<height img]. \<Sum>x\<leftarrow>[0..<width img]. real y * weight img x y)
                  / total_mass img) \<rparr>"
  by (simp add: calculateCentroid_def centroid_sums_eq)

text \<open>
  Claim C9. For every grid whose total above-threshold weighted mass (the sum of the
  intensities \<open>I = 255 - brightness\<close> over the samples with \<open>I > 20\<close>) is exactly zero,
  \<open>calculateCentroid\<close> returns \<open>(width/2, height/2)\<close>; and for every grid the result is a
  pair of finite numbers: no division by a zero mass happens (it would give \<open>NaN\<close> or an
  infinity).
\<close>

theorem calculateCentroid_fallback:
  "(total_mass img = 0 \<longrightarrow>
      calculateCentroid img = \<lparr> px = Num (real (width img) / 2), py = Num (real (height img) / 2) \<rparr>)
   \<and> (\<exists>a b. calculateCentroid img = \<lparr> px = Num a, py = Num b \<rparr>)"
proof (cases "total_mass img = 0")
  case True
  then show ?thesis
    using calculateCentroid_zero_mass [OF True] by blast
next
  case False
  then show ?thesis
    using calculateCentroid_positive_mass [OF False] by blast
qed

text \<open>
  Claim C10. The point returned by \<open>calculateCentroid\<close> lies inside the pixel bounds of
  the grid, \<open>0 \<le> x \<le> width\<close> and \<open>0 \<le> y \<le> height\<close>; when the mass is not zero, the
  weighted mean of the pixel indices even lies in \<open>[0, width - 1] \<times> [0, height - 1]\<close>.
  (This holds for every grid, so also for those with \<open>width \<ge> 1\<close> and \<open>height \<ge> 1\<close>.)
\<close>

theorem calculateCentroid_in_bounds:
  "\<exists>a b. calculateCentroid img = \<lparr> px = Num a, py = Num b \<rparr>
     \<and> 0 \<le> a \<and> a \<le> real (width img) \<and> 0 \<le> b \<and> b \<le> real (height img)
     \<and> (total_mass img \<noteq> 0 \<longrightarrow> a \<le> real (width img) - 1 \<and> b \<le> real (height img) - 1)"
proof (cases "total_mass img = 0")
  case True
  have "calculateCentroid img =
      \<lparr> px = Num (real (width img) / 2), py = Num (real (height img) / 2) \<rparr>"
    using True by (rule calculateCentroid_zero_mass)
  moreover have "0 \<le> real (width img) / 2" "real (width img) / 2 \<le> real (width img)"
    "0 \<le> real (height img) / 2" "real (height img) / 2 \<le> real (height img)"
    by simp_all
  ultimately show ?thesis
    using True by blast
next
  case False
  then have m: "0 < total_mass img"
    using total_mass_nonneg [of img] by simp
  define a where "a = (\<Sum>y\<leftarrow>[0..<height img]. \<Sum>x\<leftarrow>[0..<width img]. real x * weight img x y)
                  / total_mass img"
  define b where "b = (\<Sum>y\<leftarrow>[0..<height img]. \<Sum>x\<leftarrow>[0..<width img]. real y * weight img x y)
                  / total_mass img"
  have c: "calculateCentroid img = \<lparr> px = Num a, py = Num b \<rparr>"
    using False by (simp add: calculateCentroid_positive_mass a_def b_def)
  have a0: "0 \<le> a" unfolding a_def using m sumX_nonneg by (intro divide_nonneg_pos)
  have b0: "0 \<le> b" unfolding b_def using m sumY_nonneg by (intro divide_nonneg_pos)
  have a1: "a \<le> real (width img) - 1"
    unfolding a_def using m sumX_le [where h = "height img" and w = "width img" and img = img]
    by (simp add: pos_divide_le_eq total_mass_def)
  have b1: "b \<le> real (height img) - 1"
    unfolding b_def using m sumY_le [where h = "height img" and w = "width img" and img = img]
    by (simp add: pos_divide_le_eq total_mass_def)
  show ?thesis
    using c a0 b0 a1 b1 by auto
qed

text \<open>Uniform grids: every sample has the same weight.\<close>

lemma nth_concat_replicate:
  assumes "length xs = 4" "j < n" "k < 4"
  shows "concat (replicate n xs) ! (j * 4 + k) = xs ! k"
  using assms(2)
proof (induction n arbitrary: j)
  case 0
  then show ?case by simp
next
  case (Suc n)
  show ?case
  proof (cases j)
    case 0
    then show ?thesis using assms(1,3) by (simp add: nth_append)
  next
    case (Suc j')
    then have "j' < n" using Suc.prems by simp
    from Suc.IH [OF this] show ?thesis
      using Suc assms(1) by (simp add: nth_append)
  qed
qed

lemma uniform_pixel_intensity:
  assumes "x < w" "y < h"
  shows "pixel_intensity (uniform_grid w h r g b a) x y
     = 255 - (real (unat r) + real (unat g) + real (unat b)) / 3"
proof -
  have "y * w + x < (y + 1) * w" using assms(1) by simp
  also have "\<dots> \<le> h * w" using assms(2) by (intro mult_le_mono1) simp
  finally have j: "y * w + x < w * h" by (simp add: mult.commute)
  have 0: "concat (replicate (w * h) [r, g, b, a]) ! ((y * w + x) * 4) = r"
    using nth_concat_replicate [of "[r, g, b, a]" _ _ 0, OF _ j] by simp
  have 1: "concat (replicate (w * h) [r, g, b, a]) ! ((y * w + x) * 4 + 1) = g"
    using nth_concat_replicate [of "[r, g, b, a]" _ _ 1, OF _ j] by simp
  have 2: "concat (replicate (w * h) [r, g, b, a]) ! ((y * w + x) * 4 + 2) = b"
    using nth_concat_replicate [of "[r, g, b, a]" _ _ 2, OF _ j] by simp
  show ?thesis
    unfolding pixel_intensity_def uniform_grid_def Let_def
    by (simp only: ImageData.simps 0 1 2)
qed

lemma sum_list_upt_real: "(\<Sum>x\<leftarrow>[0..<n]. real x) = real n * (real n - 1) / 2"
  by (induction n) (simp_all add: algebra_simps)

lemma uniform_sums:
  fixes c :: real
  assumes "\<And>x y. x < w \<Longrightarrow> y < h \<Longrightarrow> weight img x y = c"
  shows "(\<Sum>y\<leftarrow>[0..<h]. \<Sum>x\<leftarrow>[0..<w]. weight img x y) = real h * real w * c"
    and "(\<Sum>y\<leftarrow>[0..<h]. \<Sum>x\<leftarrow>[0..<w]. real x * weight img x y)
           = real h * (real w * (real w - 1) / 2) * c"
    and "(\<Sum>y\<leftarrow>[0..<h]. \<Sum>x\<leftarrow>[0..<w]. real y * weight img x y)
           = (real h * (real h - 1) / 2) * real w * c"
proof -
  have a: "(\<Sum>y\<leftarrow>[0..<h]. \<Sum>x\<leftarrow>[0..<w]. weight img x y) = (\<Sum>y\<leftarrow>[0..<h]. \<Sum>x\<leftarrow>[0..<w]. c)"
    by (intro arg_cong [where f = sum_list] map_cong refl) (simp add: assms)
  show "(\<Sum>y\<leftarrow>[0..<h]. \<Sum>x\<leftarrow>[0..<w]. weight img x y) = real h * real w * c"
    unfolding a by (simp add: sum_list_triv)
  have b: "(\<Sum>y\<leftarrow>[0..<h]. \<Sum>x\<leftarrow>[0..<w]. real x * weight img x y)
      = (\<Sum>y\<leftarrow>[0..<h]. \<Sum>x\<leftarrow>[0..<w]. real x * c)"
    by (intro arg_cong [where f = sum_list] map_cong refl) (simp add: assms)
  show "(\<Sum>y\<leftarrow>[0..<h]. \<Sum>x\<leftarrow>[0..<w]. real x * weight img x y)
           = real h * (real w * (real w - 1) / 2) * c"
    unfolding b by (simp add: sum_list_triv sum_list_mult_const sum_list_upt_real)
  have d: "(\<Sum>y\<leftarrow>[0..<h]. \<Sum>x\<leftarrow>[0..<w]. real y * weight img x y)
      = (\<Sum>y\<leftarrow>[0..<h]. \<Sum>x\<leftarrow>[0..<w]. real y * c)"
    by (intro arg_cong [where f = sum_list] map_cong refl) (simp add: assms)
  show "(\<Sum>y\<leftarrow>[0..<h]. \<Sum>x\<leftarrow>[0..<w]. real y * weight img x y)
           = (real h * (real h - 1) / 2) * real w * c"
  proof -
    have "(\<Sum>y\<leftarrow>[0..<h]. \<Sum>x\<leftarrow>[0..<w]. real y * c) = (\<Sum>y\<leftarrow>[0..<h]. real y * (real w * c))"
      by (simp add: sum_list_triv mult.left_commute)
    also have "\<dots> = (\<Sum>y\<leftarrow>[0..<h]. real y) * (real w * c)"
      by (simp only: sum_list_mult_const)
    finally show ?thesis
      unfolding d by (simp add: sum_list_upt_real)
  qed
qed

lemma uniform_grid_sel:
  "width (uniform_grid w h r g b a) = w" "height (uniform_grid w h r g b a) = h"
  by (simp_all add: uniform_grid_def)

lemma uniform_weight:
  assumes "x < w" "y < h"
  shows "weight (uniform_grid w h r g b a) x y =
     (if 255 - (real (unat r) + real (unat g) + real (unat b)) / 3 > 20
      then 255 - (real (unat r) + real (unat g) + real (unat b)) / 3 else 0)"
  unfolding weight_def uniform_pixel_intensity [OF assms] ..

lemma uniform_total_mass:
  "total_mass (uniform_grid w h r g b a) =
     real h * real w * (if 255 - (real (unat r) + real (unat g) + real (unat b)) / 3 > 20
      then 255 - (real (unat r) + real (unat g) + real (unat b)) / 3 else 0)"
proof -
  have "(\<Sum>y\<leftarrow>[0..<h]. \<Sum>x\<leftarrow>[0..<w]. weight (uniform_grid w h r g b a) x y) =
     real h * real w * (if 255 - (real (unat r) + real (unat g) + real (unat b)) / 3 > 20
      then 255 - (real (unat r) + real (unat g) + real (unat b)) / 3 else 0)"
    by (rule uniform_sums(1)) (rule uniform_weight)
  then show ?thesis
    by (simp only: total_mass_def uniform_grid_sel)
qed

lemma uniform_centroid:
  "calculateCentroid (uniform_grid w h r g b a) =
     (if 255 - (real (unat r) + real (unat g) + real (unat b)) / 3 \<le> 20 \<or> w = 0 \<or> h = 0
      then \<lparr> px = Num (real w / 2), py = Num (real h / 2) \<rparr>
      else \<lparr> px = Num ((real w - 1) / 2), py = Num ((real h - 1) / 2) \<rparr>)"
proof -
  define I where "I = 255 - (real (unat r) + real (unat g) + real (unat b)) / 3"
  define c where "c = (if I > 20 then I else 0)"
  define img where "img = uniform_grid w h r g b a"
  have wh: "width img = w" "height img = h"
    by (simp_all add: img_def uniform_grid_sel)
  have wt: "weight img x y = c" if "x < w" "y < h" for x y
    using uniform_weight [OF that] by (simp add: img_def c_def I_def)
  have m: "total_mass img = real h * real w * c"
    using uniform_total_mass [of w h r g b a] by (simp add: img_def c_def I_def)
  have "calculateCentroid img =
     (if I \<le> 20 \<or> w = 0 \<or> h = 0
      then \<lparr> px = Num (real w / 2), py = Num (real h / 2) \<rparr>
      else \<lparr> px = Num ((real w - 1) / 2), py = Num ((real h - 1) / 2) \<rparr>)"
  proof (cases "I \<le> 20 \<or> w = 0 \<or> h = 0")
    case True
    then have "total_mass img = 0" by (auto simp: m c_def)
    from calculateCentroid_zero_mass [OF this] show ?thesis
      using True by (simp only: wh if_True)
  next
    case False
    then have c: "0 < c" and w: "0 < real w" and h: "0 < real h"
      by (simp_all add: c_def)
    then have m0: "total_mass img \<noteq> 0" by (simp add: m)
    have s2: "(\<Sum>y\<leftarrow>[0..<h]. \<Sum>x\<leftarrow>[0..<w]. real x * weight img x y)
        = real h * (real w * (real w - 1) / 2) * c"
      by (rule uniform_sums(2)) (rule wt)
    have s3: "(\<Sum>y\<leftarrow>[0..<h]. \<Sum>x\<leftarrow>[0..<w]. real y * weight img x y)
        = (real h * (real h - 1) / 2) * real w * c"
      by (rule uniform_sums(3)) (rule wt)
    have sx: "(\<Sum>y\<leftarrow>[0..<height img]. \<Sum>x\<leftarrow>[0..<width img]. real x * weight img x y) / total_mass img
        = (real w - 1) / 2"
      unfolding wh m s2
      using c w h by (simp add: field_simps)
    have sy: "(\<Sum>y\<leftarrow>[0..<height img]. \<Sum>x\<leftarrow>[0..<width img]. real y * weight img x y) / total_mass img
        = (real h - 1) / 2"
      unfolding wh m s3
      using c w h by (simp add: field_simps)
    from calculateCentroid_positive_mass [OF m0] show ?thesis
      using False by (simp only: sx sy if_False)
  qed
  then show ?thesis
    unfolding I_def img_def .
qed

text \<open>
  Claim C6, as amended. For a uniform grid of width \<open>w\<close> and height \<open>h\<close>,
  \<open>calculateCentroid\<close> returns the geometric centre \<open>(w/2, h/2)\<close> when the common intensity
  is at most the threshold 20 (or the grid has no samples); when the common intensity
  is above 20, it returns the mean pixel index \<open>((w - 1)/2, (h - 1)/2)\<close>.
\<close>

theorem calculateCentroid_uniform:
  "calculateCentroid (uniform_grid w h r g b a) =
     (if 255 - (real (unat r) + real (unat g) + real (unat b)) / 3 \<le> 20 \<or> w = 0 \<or> h = 0
      then \<lparr> px = Num (real w / 2), py = Num (real h / 2) \<rparr>
      else \<lparr> px = Num ((real w - 1) / 2), py = Num ((real h - 1) / 2) \<rparr>)"
  by (rule uniform_centroid)

theorem calculateCentroid_uniform_witness:
  "calculateCentroid (uniform_grid 4 2 255 255 255 255) = \<lparr> px = Num 2, py = Num 1 \<rparr>
   \<and> calculateCentroid (uniform_grid 4 2 0 0 0 255) = \<lparr> px = Num (3/2), py = Num (1/2) \<rparr>"
  using calculateCentroid_uniform [of 4 2 255 255 255 255]
        calculateCentroid_uniform [of 4 2 0 0 0 255]
  by simp

text \<open>
  The claim as first stated, \<open>(w/2, h/2)\<close> whatever the intensity, fails for a black
  grid of 2 by 2 samples: the centroid is \<open>(1/2, 1/2)\<close>, not \<open>(1, 1)\<close>.
\<close>

theorem calculateCentroid_uniform_counterexample:
  "calculateCentroid (uniform_grid 2 2 0 0 0 255) = \<lparr> px = Num (1/2), py = Num (1/2) \<rparr>
   \<and> calculateCentroid (uniform_grid 2 2 0 0 0 255) \<noteq> \<lparr> px = Num (2/2), py = Num (2/2) \<rparr>"
  by (simp add: uniform_centroid)

theorem calculateCentroid_fallback_witness:
  "total_mass (uniform_grid 2 2 255 255 255 255) = 0
   \<and> calculateCentroid (uniform_grid 2 2 255 255 255 255) = \<lparr> px = Num 1, py = Num 1 \<rparr>"
  using calculateCentroid_fallback [of "uniform_grid 2 2 255 255 255 255"]
  by (simp add: uniform_total_mass uniform_grid_sel)

lemma strip_sel: "width strip_image = 3" "height strip_image = 1"
  by (simp_all add: strip_image_def)

lemma strip_weights:
  "weight strip_image 0 0 = 255" "weight strip_image (Suc 0) 0 = 0" "weight strip_image 2 0 = 0"
  "pixel_intensity strip_image 2 0 = 15"
  by (simp_all add: weight_def pixel_intensity_def strip_image_def)

lemma upt_3: "[0..<3] = [0, 1, 2]" "[0..<1] = [0]"
  by (simp_all add: upt_rec)

lemma strip_total_mass: "total_mass strip_image = 255"
  by (simp add: total_mass_def strip_sel upt_3 strip_weights)

lemma strip_centroid: "calculateCentroid strip_image = \<lparr> px = Num 0, py = Num 0 \<rparr>"
  using calculateCentroid_positive_mass [of strip_image]
  by (simp add: strip_total_mass strip_sel upt_3 strip_weights)

theorem calculateCentroid_in_bounds_witness:
  "total_mass strip_image \<noteq> 0
   \<and> (\<exists>a b. calculateCentroid strip_image = \<lparr> px = Num a, py = Num b \<rparr>
         \<and> 0 \<le> a \<and> a \<le> 2 \<and> 0 \<le> b \<and> b \<le> 0)"
  using calculateCentroid_in_bounds [of strip_image]
  by (auto simp: strip_total_mass strip_sel)

section \<open>Properties of the RadialProfiler\<close>

lemma list_update_map_upt:
  "i < n \<Longrightarrow> (map f [0..<n])[i := v] = map (\<lambda>k. if k = i then v else f k) [0..<n]"
  by (rule nth_equalityI) (simp_all add: nth_list_update)

lemma profile_step_map:
  "profile_step img cx cy y x (map f [0..<n], map g [0..<n]) =
     (map (\<lambda>k. f k + (if \<lfloor>sample_radius cx cy x y\<rfloor> = int k then pixel_intensity img x y else 0)) [0..<n],
      map (\<lambda>k. g k + (if \<lfloor>sample_radius cx cy x y\<rfloor> = int k then 1 else 0)) [0..<n])"
proof -
  define b where "b = \<lfloor>sample_radius cx cy x y\<rfloor>"
  have b0: "0 \<le> b" by (simp add: b_def sample_radius_def)
  have r: "\<lfloor>sqrt ((real x - cx) * (real x - cx) + (real y - cy) * (real y - cy))\<rfloor> = b"
    by (simp add: b_def sample_radius_def power2_eq_square)
  show ?thesis
  proof (cases "b < int n")
    case True
    then have i: "nat b < n" using b0 by simp
    have eq: "(k = nat b) = (b = int k)" for k using b0 by auto
    show ?thesis
      using True i
      by (simp add: profile_step_def Let_def r b_def [symmetric] list_update_map_upt eq)
  next
    case False
    then have "b \<noteq> int k" if "k < n" for k using that by auto
    then show ?thesis
      using False
      by (simp add: profile_step_def Let_def r b_def [symmetric])
  qed
qed

lemma fold_profile_row:
  "fold (profile_step img cx cy y) xs (map f [0..<n], map g [0..<n]) =
     (map (\<lambda>k. f k + (\<Sum>x\<leftarrow>xs. if \<lfloor>sample_radius cx cy x y\<rfloor> = int k then pixel_intensity img x y else 0)) [0..<n],
      map (\<lambda>k. g k + (\<Sum>x\<leftarrow>xs. if \<lfloor>sample_radius cx cy x y\<rfloor> = int k then 1 else 0)) [0..<n])"
proof (induction xs arbitrary: f g)
  case Nil
  then show ?case by simp
next
  case (Cons x xs)
  show ?case
    by (simp only: fold_simps profile_step_map Cons.IH) (simp add: add.assoc)
qed

lemma fold_profile_rows:
  "fold (\<lambda>y st. fold (profile_step img cx cy y) xs st) ys (map f [0..<n], map g [0..<n]) =
     (map (\<lambda>k. f k + (\<Sum>y\<leftarrow>ys. \<Sum>x\<leftarrow>xs. if \<lfloor>sample_radius cx cy x y\<rfloor> = int k then pixel_intensity img x y else 0)) [0..<n],
      map (\<lambda>k. g k + (\<Sum>y\<leftarrow>ys. \<Sum>x\<leftarrow>xs. if \<lfloor>sample_radius cx cy x y\<rfloor> = int k then 1 else 0)) [0..<n])"
proof (induction ys arbitrary: f g)
  case Nil
  then show ?case by simp
next
  case (Cons y ys)
  show ?case
    by (simp only: fold_simps fold_profile_row Cons.IH) (simp add: add.assoc)
qed

lemma accumulate_eq:
  "accumulate img cx cy =
     (map (bin_sum img cx cy) [0..<bin_count img],
      map (bin_population img cx cy) [0..<bin_count img])"
proof -
  have init: "(replicate (bin_count img) (0::real), replicate (bin_count img) (0::nat))
      = (map (\<lambda>k. 0) [0..<bin_count img], map (\<lambda>k. 0) [0..<bin_count img])"
    by (simp add: map_replicate_const)
  show ?thesis
    unfolding accumulate_def init fold_profile_rows
    by (simp add: bin_sum_def bin_population_def)
qed

lemma maxRadius_squares:
  "maxRadius img = sqrt ((real (width img))\<^sup>2 + (real (height img))\<^sup>2) / 2"
  by (simp add: maxRadius_def power2_eq_square)

lemma profile_step_skip:
  "int (length bins) \<le> \<lfloor>sample_radius cx cy x y\<rfloor> \<Longrightarrow>
   profile_step img cx cy y x (bins, counts) = (bins, counts)"
  by (simp add: profile_step_def Let_def sample_radius_def power2_eq_square)

text \<open>
  Claim C7, as amended. For every grid and every finite centroid position, bin \<open>k\<close> of
  the accumulation, for \<open>k\<close> below the number of bins, holds the sum of the intensities
  \<open>I = 255 - (R+G+B)/3\<close> (no threshold) of exactly the samples with \<open>floor r = k\<close>, where
  \<open>r\<close> is the Euclidean pixel distance from the centroid, together with the number of
  these samples; the number of bins is \<open>ceil (sqrt (width\<^sup>2 + height\<^sup>2) / 2)\<close>; and a
  sample whose \<open>floor r\<close> is not below the number of bins is skipped: it changes
  neither a bin nor a count.
\<close>

theorem accumulate_spec:
  "accumulate img cx cy =
     (map (bin_sum img cx cy) [0..<bin_count img],
      map (bin_population img cx cy) [0..<bin_count img])
   \<and> bin_count img = nat \<lceil>sqrt ((real (width img))\<^sup>2 + (real (height img))\<^sup>2) / 2\<rceil>
   \<and> (int (length bins) \<le> \<lfloor>sample_radius cx cy x y\<rfloor> \<longrightarrow>
        profile_step img cx cy y x (bins, counts) = (bins, counts))"
  using accumulate_eq [of img cx cy] profile_step_skip [of bins cx cy x y img counts]
  by (simp add: bin_count_def maxRadius_squares)

lemma strip_radii:
  "sample_radius 0 0 0 0 = 0" "sample_radius 0 0 (Suc 0) 0 = 1" "sample_radius 0 0 2 0 = 2"
  by (simp_all add: sample_radius_def)

lemma strip_intensities:
  "pixel_intensity strip_image 0 0 = 255" "pixel_intensity strip_image (Suc 0) 0 = 0"
  by (simp_all add: pixel_intensity_def strip_image_def)

lemma strip_bin_count: "bin_count strip_image = 2"
proof -
  have "2 < sqrt 10"
    by (rule real_less_rsqrt) simp
  moreover have "sqrt 10 \<le> 4"
    by (rule real_le_lsqrt) simp_all
  ultimately have "\<lceil>sqrt 10 / 2\<rceil> = 2"
    by (intro ceiling_unique) simp_all
  then show ?thesis
    by (simp add: bin_count_def maxRadius_def strip_sel)
qed

lemma upt_2: "[0..<2] = [0, Suc 0]"
  by (simp add: upt_rec)

lemma strip_accumulate: "accumulate strip_image 0 0 = ([255, 0], [1, 1])"
  by (simp add: accumulate_eq strip_bin_count upt_2 bin_sum_def bin_population_def
      strip_sel upt_3 strip_radii strip_intensities)

text \<open>
  The claim as first stated, every sample for any centroid position, fails on the
  strip of three samples: its centroid is \<open>(0, 0)\<close>, there are 2 bins, and the sample at
  column 2 has \<open>floor r = 2\<close>; its intensity 15 is in no bin and only two samples are
  counted.
\<close>

theorem accumulate_drops_sample_counterexample:
  "calculateCentroid strip_image = \<lparr> px = Num 0, py = Num 0 \<rparr>
   \<and> \<lfloor>sample_radius 0 0 2 0\<rfloor> = 2
   \<and> pixel_intensity strip_image 2 0 = 15
   \<and> accumulate strip_image 0 0 = ([255, 0], [1, 1])"
  by (simp add: strip_centroid strip_radii strip_weights strip_accumulate)

theorem accumulate_spec_witness:
  "int (length [255, 0 :: real]) \<le> \<lfloor>sample_radius 0 0 2 0\<rfloor>
   \<and> profile_step strip_image 0 0 0 2 ([255, 0], [1, 1]) = ([255, 0], [1, 1])
   \<and> accumulate strip_image 0 0 =
       (map (bin_sum strip_image 0 0) [0, 1], map (bin_population strip_image 0 0) [0, 1])"
  using accumulate_spec [of strip_image 0 0 "[255, 0]" 2 0 "[1, 1]"]
  by (simp add: strip_radii strip_bin_count upt_2)

text \<open>The emitted profile.\<close>

lemma fold_emit_step:
  "fold (emit_step s bins counts) is acc =
     acc @ map (\<lambda>i. \<lparr> radius = real i * s, intensity = bins ! i / real (counts ! i), fit = None \<rparr>)
             (filter (\<lambda>i. 0 < counts ! i) is)"
  by (induction "is" arbitrary: acc) (simp_all add: emit_step_def)

lemma profile_eq:
  "calculateRadialProfile img \<lparr> px = Num cx, py = Num cy \<rparr> s =
     map (\<lambda>i. \<lparr> radius = real i * s,
                intensity = bin_sum img cx cy i / real (bin_population img cx cy i),
                fit = None \<rparr>)
         (filter (\<lambda>i. 0 < bin_population img cx cy i) [0..<bin_count img])"
proof -
  define n where "n = bin_count img"
  have f: "filter (\<lambda>i. 0 < map (bin_population img cx cy) [0..<n] ! i) [0..<n]
      = filter (\<lambda>i. 0 < bin_population img cx cy i) [0..<n]"
    by (rule filter_cong) simp_all
  have m: "map (\<lambda>i. \<lparr> radius = real i * s,
                intensity = map (bin_sum img cx cy) [0..<n] ! i
                              / real (map (bin_population img cx cy) [0..<n] ! i),
                fit = None \<rparr>) (filter (\<lambda>i. 0 < bin_population img cx cy i) [0..<n])
      = map (\<lambda>i. \<lparr> radius = real i * s,
                intensity = bin_sum img cx cy i / real (bin_population img cx cy i),
                fit = None \<rparr>) (filter (\<lambda>i. 0 < bin_population img cx cy i) [0..<n])"
    by (rule map_cong) simp_all
  show ?thesis
    unfolding calculateRadialProfile_def accumulate_eq n_def [symmetric]
    by (simp add: fold_emit_step f m)
qed

lemma profile_radii:
  "\<exists>is. sorted_wrt (<) is \<and> (\<forall>i \<in> set is. i < bin_count img)
     \<and> map radius (calculateRadialProfile img c s) = map (\<lambda>i. real i * s) is"
proof (cases "\<exists>cx cy. c = \<lparr> px = Num cx, py = Num cy \<rparr>")
  case True
  then obtain cx cy where c: "c = \<lparr> px = Num cx, py = Num cy \<rparr>" by blast
  let ?is = "filter (\<lambda>i. 0 < bin_population img cx cy i) [0..<bin_count img]"
  have "sorted_wrt (<) ?is"
    by (intro sorted_wrt_filter) (simp add: sorted_wrt_upt)
  moreover have "\<forall>i \<in> set ?is. i < bin_count img" by simp
  moreover have "map radius (calculateRadialProfile img c s) = map (\<lambda>i. real i * s) ?is"
    by (simp add: c profile_eq comp_def)
  ultimately show ?thesis by blast
next
  case False
  then have "calculateRadialProfile img c s = []"
    by (cases c; cases "px c"; cases "py c") (auto simp: calculateRadialProfile_def)
  then show ?thesis
    by (intro exI [of _ "[]"]) simp
qed

lemma below_bin_count:
  assumes "i < bin_count img"
  shows "real i < maxRadius img"
proof -
  have "int i < \<lceil>maxRadius img\<rceil>"
    using assms by (simp add: bin_count_def)
  then show ?thesis by (simp add: less_ceiling_iff)
qed

lemma profile_sorted:
  assumes "0 \<le> s"
  shows "sorted (map radius (calculateRadialProfile img c s))"
proof -
  obtain "is" where i: "sorted_wrt (<) is"
      "map radius (calculateRadialProfile img c s) = map (\<lambda>i. real i * s) is"
    using profile_radii [of img c s] by blast
  have "sorted_wrt (\<lambda>i j. real i * s \<le> real j * s) is"
  proof (rule sorted_wrt_mono_rel [OF _ i(1)])
    fix x y :: nat
    assume "x < y"
    then show "real x * s \<le> real y * s"
      using assms by (simp add: mult_right_mono)
  qed
  then show ?thesis
    by (simp add: i(2) sorted_wrt_map)
qed

lemma profile_strictly_sorted:
  assumes "0 < s"
  shows "sorted_wrt (<) (map radius (calculateRadialProfile img c s))"
proof -
  obtain "is" where i: "sorted_wrt (<) is"
      "map radius (calculateRadialProfile img c s) = map (\<lambda>i. real i * s) is"
    using profile_radii [of img c s] by blast
  have "sorted_wrt (\<lambda>i j. real i * s < real j * s) is"
  proof (rule sorted_wrt_mono_rel [OF _ i(1)])
    fix x y :: nat
    assume "x < y"
    then show "real x * s < real y * s"
      using assms by simp
  qed
  then show ?thesis
    by (simp add: i(2) sorted_wrt_map)
qed

lemma profile_radius_bound:
  assumes "0 < s" "p \<in> set (calculateRadialProfile img c s)"
  shows "radius p \<le> s * maxRadius img"
proof -
  obtain "is" where i: "\<forall>i \<in> set is. i < bin_count img"
      "map radius (calculateRadialProfile img c s) = map (\<lambda>i. real i * s) is"
    using profile_radii [of img c s] by blast
  have "radius p \<in> set (map radius (calculateRadialProfile img c s))"
    using assms(2) by simp
  then obtain k where k: "k \<in> set is" "radius p = real k * s"
    unfolding i(2) by auto
  have "real k < maxRadius img"
    using i(1) k(1) by (intro below_bin_count) simp
  then show ?thesis
    using assms(1) by (simp add: k(2) mult.commute)
qed

text \<open>
  Claim C8, as amended. For a finite centroid the output of \<open>calculateRadialProfile\<close>
  holds exactly one point per non-empty bin, in the order of the bin indices, with
  \<open>radius = binIndex * scale\<close> and \<open>intensity = binSum / binCount\<close>; empty bins are
  skipped. For every centroid the emitted radii are non-decreasing when the scale is
  not negative, and for a positive scale they are strictly increasing and none exceeds
  \<open>scale * sqrt (width\<^sup>2 + height\<^sup>2) / 2\<close>.
\<close>

theorem calculateRadialProfile_spec:
  "calculateRadialProfile img \<lparr> px = Num cx, py = Num cy \<rparr> scale =
     map (\<lambda>i. \<lparr> radius = real i * scale,
                intensity = bin_sum img cx cy i / real (bin_population img cx cy i),
                fit = None \<rparr>)
         (filter (\<lambda>i. 0 < bin_population img cx cy i) [0..<bin_count img])
   \<and> (0 \<le> scale \<longrightarrow> sorted (map radius (calculateRadialProfile img c scale)))
   \<and> (0 < scale \<longrightarrow>
        sorted_wrt (<) (map radius (calculateRadialProfile img c scale))
        \<and> (\<forall>p \<in> set (calculateRadialProfile img c scale).
              radius p \<le> scale * sqrt ((real (width img))\<^sup>2 + (real (height img))\<^sup>2) / 2))"
proof -
  have "radius p \<le> scale * sqrt ((real (width img))\<^sup>2 + (real (height img))\<^sup>2) / 2"
    if "0 < scale" "p \<in> set (calculateRadialProfile img c scale)" for p
    using profile_radius_bound [OF that] by (simp add: maxRadius_squares)
  then show ?thesis
    using profile_eq [of img cx cy scale] profile_sorted [of scale img c]
      profile_strictly_sorted [of scale img c]
    by blast
qed

lemma strip_profile:
  "calculateRadialProfile strip_image (calculateCentroid strip_image) s = [pt 0 255, pt s 0]"
  by (simp add: calculateRadialProfile_def strip_centroid strip_accumulate fold_emit_step
      upt_2 pt_def)

theorem calculateRadialProfile_spec_witness:
  "(0::real) < 1/5
   \<and> calculateRadialProfile strip_image \<lparr> px = Num 0, py = Num 0 \<rparr> (1/5) = [pt 0 255, pt (1/5) 0]
   \<and> sorted_wrt (<) (map radius (calculateRadialProfile strip_image \<lparr> px = Num 0, py = Num 0 \<rparr> (1/5)))
   \<and> radius (pt (1/5) 0) \<le> (1/5) * sqrt ((real (width strip_image))\<^sup>2 + (real (height strip_image))\<^sup>2) / 2"
proof -
  let ?c = "\<lparr> px = Num 0, py = Num 0 \<rparr>"
  have s: "(0::real) < 1/5" by simp
  have p: "calculateRadialProfile strip_image ?c (1/5) = [pt 0 255, pt (1/5) 0]"
    using strip_profile [of "1/5"] by (simp add: strip_centroid)
  note t = calculateRadialProfile_spec [of strip_image 0 0 "1/5" ?c]
  from t s have a: "sorted_wrt (<) (map radius (calculateRadialProfile strip_image ?c (1/5)))"
    by blast
  from t s have b: "\<forall>p \<in> set (calculateRadialProfile strip_image ?c (1/5)).
      radius p \<le> (1/5) * sqrt ((real (width strip_image))\<^sup>2 + (real (height strip_image))\<^sup>2) / 2"
    by blast
  have "pt (1/5) 0 \<in> set (calculateRadialProfile strip_image ?c (1/5))"
    by (simp add: p)
  with b have c: "radius (pt (1/5) 0)
      \<le> (1/5) * sqrt ((real (width strip_image))\<^sup>2 + (real (height strip_image))\<^sup>2) / 2"
    by blast
  show ?thesis
    using s p a c by blast
qed

text \<open>
  The claim as first stated has the radii non-decreasing for every scale; with the
  scale \<open>- 1\<close> the strip gives the radii \<open>0, - 1\<close>.
\<close>

theorem calculateRadialProfile_negative_scale_counterexample:
  "calculateRadialProfile strip_image (calculateCentroid strip_image) (- 1) = [pt 0 255, pt (- 1) 0]
   \<and> \<not> sorted (map radius (calculateRadialProfile strip_image (calculateCentroid strip_image) (- 1)))"
  by (simp add: strip_profile pt_def)

text \<open>
  The profiles that reach \<open>fitGaussian\<close> in the application are those emitted here: in
  exact arithmetic the fitted sigma is then always a finite number that is not negative.
\<close>

lemma pipeline_sigma_finite:
  "\<exists>\<sigma>. fitGaussian (calculateRadialProfile img c s) = Num \<sigma> \<and> 0 \<le> \<sigma>"
proof (cases "0 < s")
  case True
  have "sorted_wrt (<) (map radius (calculateRadialProfile img c s))"
    using True by (rule profile_strictly_sorted)
  then have "distinct (map radius (calculateRadialProfile img c s))"
    by (simp add: strict_sorted_iff)
  then show ?thesis by (rule fitGaussian_distinct_finite)
next
  case False
  obtain "is" where i: "map radius (calculateRadialProfile img c s) = map (\<lambda>i. real i * s) is"
    using profile_radii [of img c s] by blast
  have "radius p \<le> 0" if "p \<in> set (calculateRadialProfile img c s)" for p
  proof -
    have "radius p \<in> set (map radius (calculateRadialProfile img c s))"
      using that by simp
    then obtain k where "radius p = real k * s"
      unfolding i by auto
    then show ?thesis
      using False by (simp add: mult_nonneg_nonpos)
  qed
  then have "fit_window (calculateRadialProfile img c s) = []"
    by (auto simp: fit_window_def filter_empty_conv not_less)
  then have "fitGaussian (calculateRadialProfile img c s) = Num 0"
    by (intro fitGaussian_refuses_small_window) simp
  then show ?thesis by simp
qed

end
